theory Spec2Isabelle
  imports Main
begin

section \<open>Text and characters\<close>

text \<open>
  Go strings are UTF-8 byte sequences that the code walks rune by rune
  (\<open>for _, r := range s\<close>, \<open>strings.TrimSpace\<close>).  Here a \<^typ>\<open>string\<close> is the
  sequence of runes of such a text and a \<^typ>\<open>char\<close> stands for one code point
  below 256.  A code point below 128 takes one byte in UTF-8, the others of this
  range take two; only the line scanner's size limit counts bytes.
\<close>

abbreviation SQ :: char where "SQ \<equiv> CHR 0x27"
abbreviation DQ :: char where "DQ \<equiv> CHR 0x22"
abbreviation TAB :: char where "TAB \<equiv> CHR 0x09"
abbreviation LF :: char where "LF \<equiv> CHR 0x0A"
abbreviation CR :: char where "CR \<equiv> CHR 0x0D"
abbreviation BSL :: char where "BSL \<equiv> CHR 0x5C"
abbreviation SP :: char where "SP \<equiv> CHR 0x20"

text \<open>\<open>unicode.IsSpace\<close> on the code points below 256: tab, line feed, vertical tab,
  form feed, carriage return, space, NEL (U+0085) and NBSP (U+00A0).\<close>

definition isSpace :: "char \<Rightarrow> bool" where
  "isSpace c = (c = TAB \<or> c = LF \<or> c = CHR 0x0B \<or> c = CHR 0x0C \<or> c = CR \<or> c = SP
                \<or> c = CHR 0x85 \<or> c = CHR 0xA0)"

text \<open>\<open>strings.TrimSpace\<close>: drop the white space at both ends.\<close>

definition TrimSpace :: "string \<Rightarrow> string" where
  "TrimSpace s = rev (dropWhile isSpace (rev (dropWhile isSpace s)))"

text \<open>\<open>strings.HasPrefix(s, p)\<close>.\<close>

definition HasPrefix :: "string \<Rightarrow> string \<Rightarrow> bool" where
  "HasPrefix s p = (take (length p) s = p)"

section \<open>pkg/uci/types.go\<close>

text \<open>
  The two Go maps of a section are association lists: a key occurs once, lookup is
  \<^const>\<open>map_of\<close>, and the order of the list is the order in which one run of
  \<open>range\<close> visits the map (Go leaves that order open).
\<close>

record Section =
  Type :: string
  Name :: string
  Options :: "(string \<times> string) list"
  Lists :: "(string \<times> string list) list"

record Config =
  Sections :: "Section list"

definition NewConfig :: Config where
  "NewConfig = \<lparr>Sections = []\<rparr>"

definition NewSection :: "string \<Rightarrow> string \<Rightarrow> Section" where
  "NewSection sectionType name = \<lparr>Type = sectionType, Name = name, Options = [], Lists = []\<rparr>"

definition AddSection :: "Config \<Rightarrow> Section \<Rightarrow> Config" where
  "AddSection c s = c\<lparr>Sections := Sections c @ [s]\<rparr>"

text \<open>\<open>m[key] = value\<close> on an association list: replace the value of a key that is
  there, append the pair otherwise.\<close>

fun assign :: "'k \<Rightarrow> 'v \<Rightarrow> ('k \<times> 'v) list \<Rightarrow> ('k \<times> 'v) list" where
  "assign k v [] = [(k, v)]"
| "assign k v (p # ps) = (if fst p = k then (k, v) # ps else p # assign k v ps)"

definition SetOption :: "Section \<Rightarrow> string \<Rightarrow> string \<Rightarrow> Section" where
  "SetOption s key val = s\<lparr>Options := assign key val (Options s)\<rparr>"

definition GetOption :: "Section \<Rightarrow> string \<Rightarrow> string option" where
  "GetOption s key = map_of (Options s) key"

definition AddListValue :: "Section \<Rightarrow> string \<Rightarrow> string \<Rightarrow> Section" where
  "AddListValue s key val =
     s\<lparr>Lists := assign key ((case map_of (Lists s) key of None \<Rightarrow> [] | Some vs \<Rightarrow> vs) @ [val])
                    (Lists s)\<rparr>"

definition GetList :: "Section \<Rightarrow> string \<Rightarrow> string list" where
  "GetList s key = (case map_of (Lists s) key of None \<Rightarrow> [] | Some vs \<Rightarrow> vs)"

section \<open>pkg/uci/parser.go\<close>

subsection \<open>parseQuotedLine\<close>

text \<open>
  The loop of \<open>parseQuotedLine\<close> over the runes of the line, with its four variables:
  the tokens so far, the token being built, \<open>inQuotes\<close> and \<open>quoteChar\<close>.  The cases
  are tried in the order of the \<open>switch\<close>.
\<close>

fun pql_loop :: "string \<Rightarrow> string list \<Rightarrow> string \<Rightarrow> bool \<Rightarrow> char \<Rightarrow> string list" where
  "pql_loop [] parts current inQuotes quoteChar =
     (if current \<noteq> [] then parts @ [current] else parts)"
| "pql_loop (r # rs) parts current inQuotes quoteChar =
     (if \<not> inQuotes \<and> (r = SQ \<or> r = DQ) then pql_loop rs parts current True r
      else if inQuotes \<and> r = quoteChar then pql_loop rs (parts @ [current]) [] False (CHR 0x00)
      else if inQuotes then pql_loop rs parts (current @ [r]) inQuotes quoteChar
      else if r = SP \<or> r = TAB then
        (if current \<noteq> [] then pql_loop rs (parts @ [current]) [] inQuotes quoteChar
         else pql_loop rs parts current inQuotes quoteChar)
      else pql_loop rs parts (current @ [r]) inQuotes quoteChar)"

definition parseQuotedLine :: "string \<Rightarrow> string list" where
  "parseQuotedLine line = pql_loop line [] [] False (CHR 0x00)"

subsection \<open>The line scanner\<close>

text \<open>
  \<open>bufio.Scanner\<close> with its default split function \<open>ScanLines\<close>: the text is cut at
  each line feed, one trailing carriage return of a line is dropped, and an empty rest
  after the last line feed is no line.  A line of \<open>MaxScanTokenSize\<close> bytes or more
  stops the scanner with \<open>ErrTooLong\<close>; the flag of the result says so.
\<close>

definition MaxScanTokenSize :: nat where
  "MaxScanTokenSize = 65536"

fun utf8_len :: "string \<Rightarrow> nat" where
  "utf8_len [] = 0"
| "utf8_len (c # cs) = (if (of_char c :: nat) < 128 then 1 else 2) + utf8_len cs"

definition dropCR :: "string \<Rightarrow> string" where
  "dropCR data = (if data \<noteq> [] \<and> last data = CR then butlast data else data)"

fun scan_lines :: "string \<Rightarrow> string \<Rightarrow> string list \<times> bool" where
  "scan_lines cur [] =
     (if cur = [] then ([], False)
      else if MaxScanTokenSize \<le> utf8_len cur then ([], True)
      else ([dropCR cur], False))"
| "scan_lines cur (c # cs) =
     (if c = LF then
        (if MaxScanTokenSize \<le> utf8_len cur then ([], True)
         else (case scan_lines [] cs of (ls, e) \<Rightarrow> (dropCR cur # ls, e)))
      else scan_lines (cur @ [c]) cs)"

subsection \<open>Parse\<close>

datatype parse_error =
    InvalidConfigLine nat
  | OptionOutsideSection nat
  | InvalidOptionLine nat
  | ListOutsideSection nat
  | InvalidListLine nat
  | UnknownSyntax nat string
  | ScannerError

text \<open>One turn of the \<open>for scanner.Scan()\<close> loop: \<open>lineNum\<close> is already counted up, the
  state is \<open>config\<close> and \<open>currentSection\<close> (\<open>None\<close> for \<open>nil\<close>).\<close>

definition parse_line ::
  "nat \<Rightarrow> string \<Rightarrow> Config \<times> Section option \<Rightarrow> parse_error + Config \<times> Section option" where
  "parse_line lineNum raw st =
     (let line = TrimSpace raw; config = fst st; currentSection = snd st in
      if line = [] \<or> HasPrefix line ''#'' then Inr st
      else if HasPrefix line ''config '' then
        (let config' = (case currentSection of None \<Rightarrow> config | Some s \<Rightarrow> AddSection config s);
             parts = parseQuotedLine (drop 7 line)
         in if length parts < 1 then Inl (InvalidConfigLine lineNum)
            else Inr (config',
                      Some (NewSection (parts ! 0) (if length parts > 1 then parts ! 1 else []))))
      else if HasPrefix line ''option '' then
        (case currentSection of
           None \<Rightarrow> Inl (OptionOutsideSection lineNum)
         | Some s \<Rightarrow>
            (let parts = parseQuotedLine (drop 7 line)
             in if length parts \<noteq> 2 then Inl (InvalidOptionLine lineNum)
                else Inr (config, Some (SetOption s (parts ! 0) (parts ! 1)))))
      else if HasPrefix line ''list '' then
        (case currentSection of
           None \<Rightarrow> Inl (ListOutsideSection lineNum)
         | Some s \<Rightarrow>
            (let parts = parseQuotedLine (drop 5 line)
             in if length parts \<noteq> 2 then Inl (InvalidListLine lineNum)
                else Inr (config, Some (AddListValue s (parts ! 0) (parts ! 1)))))
      else Inl (UnknownSyntax lineNum line))"

fun parse_loop ::
  "nat \<Rightarrow> string list \<Rightarrow> Config \<times> Section option \<Rightarrow> parse_error + Config \<times> Section option" where
  "parse_loop lineNum [] st = Inr st"
| "parse_loop lineNum (l # ls) st =
     (case parse_line (Suc lineNum) l st of
        Inl e \<Rightarrow> Inl e
      | Inr st' \<Rightarrow> parse_loop (Suc lineNum) ls st')"

definition Parse :: "string \<Rightarrow> parse_error + Config" where
  "Parse text =
     (case scan_lines [] text of (ls, tooLong) \<Rightarrow>
       (case parse_loop 0 ls (NewConfig, None) of
          Inl e \<Rightarrow> Inl e
        | Inr st \<Rightarrow>
           (let config = (case snd st of None \<Rightarrow> fst st | Some s \<Rightarrow> AddSection (fst st) s)
            in if tooLong then Inl ScannerError else Inr config)))"

subsection \<open>Write\<close>

text \<open>\<open>strings.ReplaceAll(s, "'", "\\'")\<close>.\<close>

definition escapeQuotes :: "string \<Rightarrow> string" where
  "escapeQuotes s = concat (map (\<lambda>c. if c = SQ then [BSL, SQ] else [c]) s)"

definition write_header :: "Section \<Rightarrow> string" where
  "write_header s =
     (if Name s \<noteq> [] then ''config '' @ Type s @ '' '' @ [SQ] @ Name s @ [SQ] @ [LF]
      else ''config '' @ Type s @ [LF])"

definition write_option :: "string \<times> string \<Rightarrow> string" where
  "write_option kv =
     [TAB] @ ''option '' @ [SQ] @ fst kv @ [SQ] @ '' '' @ [SQ] @ escapeQuotes (snd kv) @ [SQ] @ [LF]"

definition write_list :: "string \<times> string list \<Rightarrow> string" where
  "write_list kvs =
     concat (map (\<lambda>v. [TAB] @ ''list '' @ [SQ] @ fst kvs @ [SQ] @ '' '' @ [SQ] @ escapeQuotes v
                        @ [SQ] @ [LF]) (snd kvs))"

definition write_section :: "Section \<Rightarrow> string" where
  "write_section s =
     write_header s @ concat (map write_option (Options s)) @ concat (map write_list (Lists s))"

text \<open>The text \<open>Write\<close> sends to its writer; \<open>i\<close> counts the sections as the loop does.
  A writer that fails is the caller's matter (\<open>config.Manager.Commit\<close> below).\<close>

fun write_sections :: "nat \<Rightarrow> Section list \<Rightarrow> string" where
  "write_sections i [] = []"
| "write_sections i (s # ss) =
     (if i > 0 then [LF] else []) @ write_section s @ write_sections (Suc i) ss"

definition Write :: "Config \<Rightarrow> string" where
  "Write config = write_sections 0 (Sections config)"


section \<open>The environment\<close>

text \<open>
  What the code asks of the operating system and of the appliers is outside the code.
  A value of \<open>env\<close> fixes it for one run: which file-system operation fails, the
  SHA-256 digest in hexadecimal, which appliers are registered and whether their
  \<open>Apply\<close> and \<open>Validate\<close> report an error, the identifier a new snapshot gets, the
  version string, whether the disk has room, whether the deadline of the commit has
  passed at the \<open>k\<close>-th look at \<open>ctx.Done()\<close>, and the order in which \<open>sort.Slice\<close>
  leaves a slice of snapshots for a given \<open>less\<close>.  The library promises of \<open>sort.Slice\<close>
  that the result is a rearrangement of its argument in which no element is \<open>less\<close> than
  one before it, and not that the sort is stable: so the order is the environment's, and
  what a theorem needs of it is a hypothesis of that theorem.
\<close>

datatype io_op =
    MkdirConfigDir
  | CreateTmp string
  | WriteTmp string
  | RenameTmp string
  | OpenConfig string
  | MkdirSnapshotDir
  | MkdirSnapshot string
  | StatActive string
  | CopyToSnapshot string string
  | ReadForChecksum string string
  | CreateTempMetadata string
  | EncodeMetadata string
  | SyncMetadata string
  | CloseMetadata string
  | RenameMetadata string
  | ReadSnapshotDir
  | StatSnapshotFile string string
  | ReadSnapshotFile string string
  | OpenSnapshotFile string string
  | CopyToActive string string
  | RemoveAll string

text \<open>
  \<open>Metadata\<close> and \<open>Snapshot\<close> of pkg/snapshot/manager.go.  A time stamp is an instant,
  counted in nanoseconds; \<open>Path\<close> is the snapshot's directory, named by the \<open>ID\<close>.
\<close>

record Metadata =
  Timestamp :: int
  Message :: string
  Configs :: "string list"
  MetaID :: string
  Version :: string
  Checksums :: "(string \<times> string) list"

record Snapshot =
  ID :: string
  Meta :: Metadata

record env =
  io_fails :: "io_op \<Rightarrow> bool"
  sha256hex :: "string \<Rightarrow> string"
  registered :: "string \<Rightarrow> bool"
  apply_fails :: "string \<Rightarrow> Config \<Rightarrow> bool"
  validate_fails :: "string \<Rightarrow> bool"
  new_id :: string
  version :: string
  disk_space_ok :: bool
  ctx_done :: "nat \<Rightarrow> bool"
  sort_slice :: "(Snapshot \<Rightarrow> Snapshot \<Rightarrow> bool) \<Rightarrow> Snapshot list \<Rightarrow> Snapshot list"

section \<open>The state of the program\<close>

text \<open>
  An entry of the snapshot directory is a plain file or a directory; a directory holds
  its \<open>metadata.json\<close> (missing, not decodable, or decoding to a \<open>Metadata\<close>) and its
  other files by name.
\<close>

datatype meta_file = MetaMissing | MetaMalformed | MetaOK Metadata

datatype snap_entry = PlainFile | SnapDir meta_file "string \<rightharpoonup> string"

datatype State = StateIdle | StateInProgress | StatePending | StateCompleted | StateFailed

record pendingConfirmation =
  PendingSnapshot :: Snapshot
  Timeout :: int
  StartTime :: int

datatype sys_call = Applied string Config | Validated string

datatype event =
    EventTransactionStarted string
  | EventSnapshotCreated string
  | EventTransactionCompleted
  | EventRollbackStarted string
  | EventConfigReverted

text \<open>
  One value holds what the three managers own and what they act on:
  the files of the active configuration directory by name, the entries of the snapshot
  directory in the order \<open>os.ReadDir\<close> lists them, the staging overlay of
  \<open>config.Manager\<close>, the fields of \<open>transaction.Manager\<close>, the channels closed so far
  (a channel is a number, \<open>make\<close> takes the next one), the calls made on appliers and
  the events published on the bus.  The database is absent (\<open>db.DB == nil\<close>), so the
  transaction record and the audit log are not part of the state.

  \<open>clock\<close> is the instant \<open>time.Now()\<close> reads, in nanoseconds.  An operation takes no
  time; time passes between operations (\<open>elapse\<close> below).  \<open>timers\<close> holds the
  \<open>confirmationTimer\<close> goroutines that have not ended: each with the cancel channel
  \<open>Commit\<close> made for it and the instant from which its \<open>time.NewTimer(timeout)\<close> has
  fired.

  A config name and a snapshot identifier are names of entries of their directories, as
  \<open>os.ReadDir\<close> gives them and as the callers in this repository build them.  What
  \<open>filepath.Join\<close> makes of an empty name, of a separator or of a dot segment in a name
  is not part of this model.
\<close>

record world =
  active :: "string \<rightharpoonup> string"
  snapshots :: "(string \<times> snap_entry) list"
  staged :: "(string \<times> Config) list"
  state :: State
  currentSnapshot :: "Snapshot option"
  pendingConfirm :: "pendingConfirmation option"
  confirmCancelCh :: "nat option"
  applyOrder :: "string list"
  nextChan :: nat
  closedChans :: "nat list"
  timers :: "(nat \<times> int) list"
  clock :: int
  syscalls :: "sys_call list"
  events :: "event list"

section \<open>pkg/config: the configuration store\<close>

datatype config_error =
    NoStagedChanges
  | CreateConfigDirFailed
  | CreateTempFileFailed string
  | WriteConfigFailed string
  | CommitConfigFailed string
  | NoStagedToRevert
  | OpenConfigFailed string
  | ParseConfigFailed string parse_error
  | InvalidPath
  | SectionNotFound string
  | OptionNameRequired
  | OptionNotFound string

text \<open>\<open>Load\<close>: the staged document if there is one, else the file of the active directory;
  a file that does not exist gives the empty document.\<close>

definition Load :: "env \<Rightarrow> world \<Rightarrow> string \<Rightarrow> config_error + Config" where
  "Load e w name =
     (case map_of (staged w) name of
        Some c \<Rightarrow> Inr c
      | None \<Rightarrow>
         (if io_fails e (OpenConfig name) then Inl (OpenConfigFailed name)
          else case active w name of
                 None \<Rightarrow> Inr NewConfig
               | Some text \<Rightarrow>
                  (case Parse text of
                     Inl pe \<Rightarrow> Inl (ParseConfigFailed name pe)
                   | Inr c \<Rightarrow> Inr c)))"

definition Stage :: "world \<Rightarrow> string \<Rightarrow> Config \<Rightarrow> world" where
  "Stage w name config = w\<lparr>staged := assign name config (staged w)\<rparr>"

text \<open>
  The loop of \<open>Commit\<close> over the staged documents, on the files of the active directory:
  create \<open>path + ".tmp"\<close>, write the document, rename.  A failed write or rename removes
  the temporary file.  The result is the error, if any, and the files as they are left.
\<close>

fun commit_loop ::
  "env \<Rightarrow> (string \<times> Config) list \<Rightarrow> (string \<rightharpoonup> string) \<Rightarrow> config_error option \<times> (string \<rightharpoonup> string)" where
  "commit_loop e [] files = (None, files)"
| "commit_loop e (nc # rest) files =
     (let name = fst nc; config = snd nc; tmpPath = name @ ''.tmp'' in
      if io_fails e (CreateTmp name) then (Some (CreateTempFileFailed name), files)
      else if io_fails e (WriteTmp name) then
        (Some (WriteConfigFailed name), (files(tmpPath \<mapsto> []))(tmpPath := None))
      else if io_fails e (RenameTmp name) then
        (Some (CommitConfigFailed name), (files(tmpPath \<mapsto> Write config))(tmpPath := None))
      else commit_loop e rest (((files(tmpPath \<mapsto> Write config))(tmpPath := None))(name \<mapsto> Write config)))"

definition Commit_config :: "env \<Rightarrow> world \<Rightarrow> config_error option \<times> world" where
  "Commit_config e w =
     (if length (staged w) = 0 then (Some NoStagedChanges, w)
      else if io_fails e MkdirConfigDir then (Some CreateConfigDirFailed, w)
      else case commit_loop e (staged w) (active w) of
             (Some err, files) \<Rightarrow> (Some err, w\<lparr>active := files\<rparr>)
           | (None, files) \<Rightarrow> (None, w\<lparr>active := files, staged := []\<rparr>))"

definition Revert :: "world \<Rightarrow> config_error option \<times> world" where
  "Revert w =
     (if length (staged w) = 0 then (Some NoStagedToRevert, w)
      else (None, w\<lparr>staged := []\<rparr>))"

definition HasChanges :: "world \<Rightarrow> bool" where
  "HasChanges w = (length (staged w) > 0)"

definition GetChanges :: "world \<Rightarrow> string list" where
  "GetChanges w = map fst (staged w)"

subsection \<open>Dotted paths\<close>








section \<open>pkg/appliers: the netmask table\<close>

definition DefaultCIDR :: int where
  "DefaultCIDR = 24"

definition masks :: "(string \<times> int) list" where
  "masks =
     [(''255.255.255.255'', 32), (''255.255.255.254'', 31), (''255.255.255.252'', 30),
      (''255.255.255.248'', 29), (''255.255.255.240'', 28), (''255.255.255.224'', 27),
      (''255.255.255.192'', 26), (''255.255.255.128'', 25), (''255.255.255.0'', 24),
      (''255.255.254.0'', 23), (''255.255.252.0'', 22), (''255.255.248.0'', 21),
      (''255.255.240.0'', 20), (''255.255.224.0'', 19), (''255.255.192.0'', 18),
      (''255.255.128.0'', 17), (''255.255.0.0'', 16), (''255.254.0.0'', 15),
      (''255.252.0.0'', 14), (''255.248.0.0'', 13), (''255.240.0.0'', 12),
      (''255.224.0.0'', 11), (''255.192.0.0'', 10), (''255.128.0.0'', 9),
      (''255.0.0.0'', 8)]"

definition convertNetmaskToCIDR :: "string \<Rightarrow> int" where
  "convertNetmaskToCIDR netmask =
     (case map_of masks netmask of Some cidr \<Rightarrow> cidr | None \<Rightarrow> DefaultCIDR)"


section \<open>pkg/snapshot: the snapshot store\<close>

datatype validation_error =
    SnapshotFileMissing string
  | StatFailed string
  | ReadChecksumFailed string
  | ChecksumMismatch string string string
  | OpenFailed string
  | InvalidUCI string parse_error

datatype snapshot_error =
    CreateSnapshotDirFailed
  | InsufficientDiskSpace
  | StatConfigFailed string
  | CopyConfigFailed string
  | ReadForChecksumFailed string
  | CreateTempMetadataFailed
  | WriteMetadataFailed
  | SyncMetadataFailed
  | CloseMetadataFailed
  | RenameMetadataFailed
  | ReadSnapshotDirFailed
  | SnapshotNotFound string
  | OpenMetadataFailed
  | DecodeMetadataFailed
  | SnapshotValidationFailed validation_error
  | RestoreConfigFailed string
  | DeleteSnapshotFailed string
  | NoSnapshotsAvailable
  | IndexOutOfRange

text \<open>The files of the snapshot directory \<open>id\<close>, by name.\<close>

definition snapshot_files :: "world \<Rightarrow> string \<Rightarrow> (string \<rightharpoonup> string)" where
  "snapshot_files w sid =
     (case map_of (snapshots w) sid of Some (SnapDir m fs) \<Rightarrow> fs | _ \<Rightarrow> Map.empty)"

definition Load_snapshot :: "world \<Rightarrow> string \<Rightarrow> snapshot_error + Snapshot" where
  "Load_snapshot w sid =
     (case map_of (snapshots w) sid of
        None \<Rightarrow> Inl (SnapshotNotFound sid)
      | Some PlainFile \<Rightarrow> Inl OpenMetadataFailed
      | Some (SnapDir m fs) \<Rightarrow>
         (case m of
            MetaMissing \<Rightarrow> Inl OpenMetadataFailed
          | MetaMalformed \<Rightarrow> Inl DecodeMetadataFailed
          | MetaOK md \<Rightarrow> Inr \<lparr>ID = sid, Meta = md\<rparr>))"

subsection \<open>ValidateSnapshot and Restore\<close>

text \<open>The check of the stored checksum for one file: only when the metadata has
  checksums at all and has one for this name.\<close>

definition verify_checksum ::
  "env \<Rightarrow> string \<Rightarrow> (string \<times> string) list \<Rightarrow> string \<Rightarrow> string \<Rightarrow> validation_error option" where
  "verify_checksum e sid cks configName data =
     (if length cks > 0 then
        (case map_of cks configName of
           Some expectedChecksum \<Rightarrow>
             (if io_fails e (ReadSnapshotFile sid configName) then Some (ReadChecksumFailed configName)
              else if sha256hex e data \<noteq> expectedChecksum then
                Some (ChecksumMismatch configName expectedChecksum (sha256hex e data))
              else None)
         | None \<Rightarrow> None)
      else None)"

fun validate_loop ::
  "env \<Rightarrow> string \<Rightarrow> (string \<rightharpoonup> string) \<Rightarrow> (string \<times> string) list \<Rightarrow> string list
     \<Rightarrow> validation_error option" where
  "validate_loop e sid files cks [] = None"
| "validate_loop e sid files cks (configName # rest) =
     (case files configName of
        None \<Rightarrow> Some (SnapshotFileMissing configName)
      | Some data \<Rightarrow>
         (if io_fails e (StatSnapshotFile sid configName) then Some (StatFailed configName)
          else case verify_checksum e sid cks configName data of
                 Some err \<Rightarrow> Some err
               | None \<Rightarrow>
                  (if io_fails e (OpenSnapshotFile sid configName) then Some (OpenFailed configName)
                   else case Parse data of
                          Inl pe \<Rightarrow> Some (InvalidUCI configName pe)
                        | Inr c \<Rightarrow> validate_loop e sid files cks rest)))"

definition ValidateSnapshot :: "env \<Rightarrow> world \<Rightarrow> Snapshot \<Rightarrow> validation_error option" where
  "ValidateSnapshot e w snapshot =
     validate_loop e (ID snapshot) (snapshot_files w (ID snapshot))
       (Checksums (Meta snapshot)) (Configs (Meta snapshot))"

text \<open>The copy loop of \<open>Restore\<close>; \<open>CopyFileAtomic\<close> writes a fresh temporary file and
  renames it, so a copy either replaces the whole file or leaves it.\<close>

fun restore_loop ::
  "env \<Rightarrow> string \<Rightarrow> (string \<rightharpoonup> string) \<Rightarrow> string list \<Rightarrow> (string \<rightharpoonup> string)
     \<Rightarrow> snapshot_error option \<times> (string \<rightharpoonup> string)" where
  "restore_loop e sid files [] act = (None, act)"
| "restore_loop e sid files (configName # rest) act =
     (case files configName of
        None \<Rightarrow> (Some (RestoreConfigFailed configName), act)
      | Some data \<Rightarrow>
         (if io_fails e (CopyToActive sid configName) then (Some (RestoreConfigFailed configName), act)
          else restore_loop e sid files rest (act(configName \<mapsto> data))))"

definition Restore :: "env \<Rightarrow> world \<Rightarrow> string \<Rightarrow> snapshot_error option \<times> world" where
  "Restore e w sid =
     (case Load_snapshot w sid of
        Inl err \<Rightarrow> (Some err, w)
      | Inr snapshot \<Rightarrow>
         (case ValidateSnapshot e w snapshot of
            Some verr \<Rightarrow> (Some (SnapshotValidationFailed verr), w)
          | None \<Rightarrow>
             (case restore_loop e sid (snapshot_files w sid) (Configs (Meta snapshot)) (active w) of
                (r, act) \<Rightarrow> (r, w\<lparr>active := act\<rparr>))))"

subsection \<open>List, Delete, Prune, GetLatest\<close>

text \<open>The loop of \<open>List\<close> over the directory entries: directories with a metadata file
  that \<open>Load\<close> can read.\<close>

fun list_loop :: "world \<Rightarrow> (string \<times> snap_entry) list \<Rightarrow> Snapshot list" where
  "list_loop w [] = []"
| "list_loop w (entry # rest) =
     (case snd entry of
        PlainFile \<Rightarrow> list_loop w rest
      | SnapDir m fs \<Rightarrow>
         (if m = MetaMissing then list_loop w rest
          else case Load_snapshot w (fst entry) of
                 Inl err \<Rightarrow> list_loop w rest
               | Inr snapshot \<Rightarrow> snapshot # list_loop w rest))"

text \<open>The \<open>less\<close> that \<open>List\<close> hands to \<open>sort.Slice\<close>:
  \<open>snapshots[i].Metadata.Timestamp.After(snapshots[j].Metadata.Timestamp)\<close>, newest first.\<close>

definition newer :: "Snapshot \<Rightarrow> Snapshot \<Rightarrow> bool" where
  "newer a b = (Timestamp (Meta b) < Timestamp (Meta a))"

definition List_snapshots :: "env \<Rightarrow> world \<Rightarrow> snapshot_error + Snapshot list" where
  "List_snapshots e w =
     (if io_fails e MkdirSnapshotDir then Inl CreateSnapshotDirFailed
      else if io_fails e ReadSnapshotDir then Inl ReadSnapshotDirFailed
      else Inr (sort_slice e newer (list_loop w (snapshots w))))"

definition Delete :: "env \<Rightarrow> world \<Rightarrow> string \<Rightarrow> snapshot_error option \<times> world" where
  "Delete e w sid =
     (if io_fails e (RemoveAll sid) then (Some (DeleteSnapshotFailed sid), w)
      else (None, w\<lparr>snapshots := filter (\<lambda>p. fst p \<noteq> sid) (snapshots w)\<rparr>))"

text \<open>The loop \<open>for i := keep; i < len(snapshots); i++\<close> of \<open>Prune\<close>, over the snapshots from
  index \<open>keep\<close> on.  \<open>Prune\<close> returns the list of deleted identifiers together with the
  error.\<close>

fun prune_loop ::
  "env \<Rightarrow> Snapshot list \<Rightarrow> string list \<Rightarrow> world \<Rightarrow> (string list \<times> snapshot_error option) \<times> world" where
  "prune_loop e [] deleted w = ((deleted, None), w)"
| "prune_loop e (s # rest) deleted w =
     (case Delete e w (ID s) of
        (Some err, w') \<Rightarrow> ((deleted, Some err), w')
      | (None, w') \<Rightarrow> prune_loop e rest (deleted @ [ID s]) w')"

text \<open>A negative \<open>keep\<close> makes the first index of the loop negative: \<open>snapshots[i]\<close>
  panics.\<close>

definition Prune :: "env \<Rightarrow> world \<Rightarrow> int \<Rightarrow> (string list \<times> snapshot_error option) \<times> world" where
  "Prune e w keep =
     (case List_snapshots e w of
        Inl err \<Rightarrow> (([], Some err), w)
      | Inr snaps \<Rightarrow>
         (if int (length snaps) \<le> keep then (([], None), w)
          else if keep < 0 then (([], Some IndexOutOfRange), w)
          else prune_loop e (drop (nat keep) snaps) [] w))"

definition GetLatest :: "env \<Rightarrow> world \<Rightarrow> snapshot_error + Snapshot" where
  "GetLatest e w =
     (case List_snapshots e w of
        Inl err \<Rightarrow> Inl err
      | Inr snaps \<Rightarrow> (case snaps of [] \<Rightarrow> Inl NoSnapshotsAvailable | s # rest \<Rightarrow> Inr s))"

subsection \<open>Create\<close>

fun copy_loop ::
  "env \<Rightarrow> string \<Rightarrow> (string \<rightharpoonup> string) \<Rightarrow> string list \<Rightarrow> (string \<rightharpoonup> string) \<Rightarrow> string list
     \<Rightarrow> snapshot_error + (string \<rightharpoonup> string) \<times> string list" where
  "copy_loop e sid act [] files copiedConfigs = Inr (files, copiedConfigs)"
| "copy_loop e sid act (configName # rest) files copiedConfigs =
     (case act configName of
        None \<Rightarrow> copy_loop e sid act rest files copiedConfigs
      | Some data \<Rightarrow>
         (if io_fails e (StatActive configName) then Inl (StatConfigFailed configName)
          else if io_fails e (CopyToSnapshot sid configName) then Inl (CopyConfigFailed configName)
          else copy_loop e sid act rest (files(configName \<mapsto> data)) (copiedConfigs @ [configName])))"

fun checksum_loop ::
  "env \<Rightarrow> string \<Rightarrow> (string \<rightharpoonup> string) \<Rightarrow> string list \<Rightarrow> (string \<times> string) list
     \<Rightarrow> snapshot_error + (string \<times> string) list" where
  "checksum_loop e sid files [] checksums = Inr checksums"
| "checksum_loop e sid files (configName # rest) checksums =
     (case files configName of
        None \<Rightarrow> Inl (ReadForChecksumFailed configName)
      | Some data \<Rightarrow>
         (if io_fails e (ReadForChecksum sid configName) then Inl (ReadForChecksumFailed configName)
          else checksum_loop e sid files rest (assign configName (sha256hex e data) checksums)))"

text \<open>Writing \<open>metadata.json\<close>: temporary file, encode, sync, close, rename.\<close>

definition write_metadata :: "env \<Rightarrow> string \<Rightarrow> snapshot_error option" where
  "write_metadata e sid =
     (if io_fails e (CreateTempMetadata sid) then Some CreateTempMetadataFailed
      else if io_fails e (EncodeMetadata sid) then Some WriteMetadataFailed
      else if io_fails e (SyncMetadata sid) then Some SyncMetadataFailed
      else if io_fails e (CloseMetadata sid) then Some CloseMetadataFailed
      else if io_fails e (RenameMetadata sid) then Some RenameMetadataFailed
      else None)"

text \<open>The deferred \<open>os.RemoveAll(snapshotPath)\<close> of a \<open>Create\<close> that fails.\<close>

definition remove_snapshot_dir :: "world \<Rightarrow> string \<Rightarrow> world" where
  "remove_snapshot_dir w sid = w\<lparr>snapshots := filter (\<lambda>p. fst p \<noteq> sid) (snapshots w)\<rparr>"

definition auto_prune :: "env \<Rightarrow> world \<Rightarrow> world" where
  "auto_prune e w =
     (case List_snapshots e w of
        Inl err \<Rightarrow> w
      | Inr snaps \<Rightarrow> (if length snaps > 100 then snd (Prune e w 100) else w))"

definition Create :: "env \<Rightarrow> world \<Rightarrow> string \<Rightarrow> string list \<Rightarrow> (snapshot_error + Snapshot) \<times> world" where
  "Create e w message configs =
     (if io_fails e MkdirSnapshotDir then (Inl CreateSnapshotDirFailed, w)
      else if \<not> disk_space_ok e then (Inl InsufficientDiskSpace, w)
      else
        (let sid = new_id e in
         if map_of (snapshots w) sid = Some PlainFile \<or> io_fails e (MkdirSnapshot sid)
         then (Inl CreateSnapshotDirFailed, w)
         else
           (case copy_loop e sid (active w) configs (snapshot_files w sid) [] of
              Inl err \<Rightarrow> (Inl err, remove_snapshot_dir w sid)
            | Inr (files, copiedConfigs) \<Rightarrow>
               (case checksum_loop e sid files copiedConfigs [] of
                  Inl err \<Rightarrow> (Inl err, remove_snapshot_dir w sid)
                | Inr checksums \<Rightarrow>
                   (let metadata = \<lparr>Timestamp = clock w, Message = message, Configs = copiedConfigs,
                                     MetaID = sid, Version = version e, Checksums = checksums\<rparr>
                    in case write_metadata e sid of
                         Some err \<Rightarrow> (Inl err, remove_snapshot_dir w sid)
                       | None \<Rightarrow>
                          (Inr \<lparr>ID = sid, Meta = metadata\<rparr>,
                           auto_prune e
                             (w\<lparr>snapshots := assign sid (SnapDir (MetaOK metadata) files)
                                                (snapshots w)\<rparr>)))))))"


section \<open>pkg/transaction: the transaction engine\<close>

text \<open>
  Every method of \<open>transaction.Manager\<close> runs with the mutex \<open>m.mu\<close> held, and so does
  the body of the confirmation timer: a call is one step on the \<open>world\<close>.
\<close>

datatype rollback_error = ReloadFailed string | ReapplyFailed string

datatype tx_error =
    TransactionInProgress State
  | NoChangesToCommit
  | CreateSnapshotFailed snapshot_error
  | CommitConfigsFailed config_error
  | ContextDone
  | LoadConfigFailed string config_error
  | ApplyFailed string
  | ValidationFailed string
  | NoPendingConfirmation State
  | NoSnapshotToRollback snapshot_error
  | RestoreSnapshotFailed snapshot_error
  | RollbackPartiallyFailed "rollback_error list"

definition publish :: "event \<Rightarrow> world \<Rightarrow> world" where
  "publish ev w = w\<lparr>events := events w @ [ev]\<rparr>"

definition GetState :: "world \<Rightarrow> State" where
  "GetState w = state w"

subsection \<open>rollbackInternal\<close>

text \<open>
  The loop of \<open>rollbackInternal\<close> over the configs of the snapshot; \<open>ctx k\<close> is the answer
  of the \<open>k\<close>-th look at \<open>ctx.Done()\<close>.  An applier is called with the document \<open>Load\<close>
  returns; the call is recorded whether it fails or not.
\<close>

fun reapply_loop ::
  "env \<Rightarrow> (nat \<Rightarrow> bool) \<Rightarrow> nat \<Rightarrow> string list \<Rightarrow> rollback_error list \<Rightarrow> world
     \<Rightarrow> (tx_error + rollback_error list) \<times> world" where
  "reapply_loop e ctx k [] rollbackErrors w = (Inr rollbackErrors, w)"
| "reapply_loop e ctx k (configName # rest) rollbackErrors w =
     (if ctx k then (Inl ContextDone, w)
      else if \<not> registered e configName then reapply_loop e ctx (Suc k) rest rollbackErrors w
      else case Load e w configName of
             Inl err \<Rightarrow>
               reapply_loop e ctx (Suc k) rest (rollbackErrors @ [ReloadFailed configName]) w
           | Inr cfg \<Rightarrow>
              (let w' = w\<lparr>syscalls := syscalls w @ [Applied configName cfg]\<rparr> in
               if apply_fails e configName cfg then
                 reapply_loop e ctx (Suc k) rest (rollbackErrors @ [ReapplyFailed configName]) w'
               else reapply_loop e ctx (Suc k) rest rollbackErrors w'))"

definition rollbackInternal :: "env \<Rightarrow> (nat \<Rightarrow> bool) \<Rightarrow> world \<Rightarrow> tx_error option \<times> world" where
  "rollbackInternal e ctx w =
     (case (case currentSnapshot w of
              Some s \<Rightarrow> Inr (s, w)
            | None \<Rightarrow>
               (case GetLatest e w of
                  Inl err \<Rightarrow> Inl err
                | Inr latest \<Rightarrow> Inr (latest, w\<lparr>currentSnapshot := Some latest\<rparr>))) of
        Inl err \<Rightarrow> (Some (NoSnapshotToRollback err), w)
      | Inr (snap, w1) \<Rightarrow>
         (case Restore e (publish (EventRollbackStarted (ID snap)) w1) (ID snap) of
            (Some err, w2) \<Rightarrow> (Some (RestoreSnapshotFailed err), w2)
          | (None, w2) \<Rightarrow>
             (case reapply_loop e ctx 0 (Configs (Meta snap)) [] w2 of
                (Inl err, w3) \<Rightarrow> (Some err, w3)
              | (Inr rollbackErrors, w3) \<Rightarrow>
                 (if length rollbackErrors > 0 then
                    (Some (RollbackPartiallyFailed rollbackErrors), w3\<lparr>state := StateFailed\<rparr>)
                  else
                    (None, publish EventConfigReverted
                             (w3\<lparr>state := StateIdle, currentSnapshot := None,
                                 pendingConfirm := None\<rparr>))))))"

definition background :: "nat \<Rightarrow> bool" where
  "background k = False"

definition Rollback :: "env \<Rightarrow> world \<Rightarrow> tx_error option \<times> world" where
  "Rollback e w = rollbackInternal e background w"

subsection \<open>Commit\<close>

text \<open>
  What every failing branch of the apply loop does: \<open>m.rollbackInternal(ctx)\<close>, whose
  result is dropped, then \<open>m.state = StateFailed\<close> and the error.  The context of the
  commit has a deadline when \<open>overallTimeout > 0\<close>; the looks at it are counted on from
  the index \<open>i\<close> of the loop.
\<close>

definition abort_commit :: "env \<Rightarrow> bool \<Rightarrow> nat \<Rightarrow> tx_error \<Rightarrow> world \<Rightarrow> tx_error option \<times> world" where
  "abort_commit e deadline i err w =
     (Some err,
      (snd (rollbackInternal e (\<lambda>k. deadline \<and> ctx_done e (Suc i + k)) w))\<lparr>state := StateFailed\<rparr>)"

fun apply_loop ::
  "env \<Rightarrow> bool \<Rightarrow> nat \<Rightarrow> string list \<Rightarrow> string list \<Rightarrow> world \<Rightarrow> tx_error option \<times> world" where
  "apply_loop e deadline i changedConfigs [] w = (None, w)"
| "apply_loop e deadline i changedConfigs (applierName # rest) w =
     (if deadline \<and> ctx_done e i then abort_commit e deadline i ContextDone w
      else if applierName \<notin> set changedConfigs then
        apply_loop e deadline (Suc i) changedConfigs rest w
      else if \<not> registered e applierName then
        apply_loop e deadline (Suc i) changedConfigs rest w
      else case Load e w applierName of
             Inl err \<Rightarrow> abort_commit e deadline i (LoadConfigFailed applierName err) w
           | Inr cfg \<Rightarrow>
              (let w1 = w\<lparr>syscalls := syscalls w @ [Applied applierName cfg]\<rparr> in
               if apply_fails e applierName cfg then
                 abort_commit e deadline i (ApplyFailed applierName) w1
               else
                 (let w2 = w1\<lparr>syscalls := syscalls w1 @ [Validated applierName]\<rparr> in
                  if validate_fails e applierName then
                    abort_commit e deadline i (ValidationFailed applierName) w2
                  else apply_loop e deadline (Suc i) changedConfigs rest w2)))"

text \<open>The end of \<open>Commit\<close> after the apply loop went through: arm the confirmation
  timer, or mark the transaction completed.\<close>

definition finish_commit :: "env \<Rightarrow> Snapshot \<Rightarrow> int \<Rightarrow> world \<Rightarrow> world" where
  "finish_commit e snapshot confirmTimeout w =
     (if confirmTimeout > 0 then
        w\<lparr>state := StatePending,
          pendingConfirm :=
            Some \<lparr>PendingSnapshot = snapshot, Timeout = confirmTimeout, StartTime = clock w\<rparr>,
          confirmCancelCh := Some (nextChan w),
          nextChan := Suc (nextChan w),
          timers := (nextChan w, clock w + confirmTimeout) # timers w\<rparr>
      else publish EventTransactionCompleted (w\<lparr>state := StateCompleted\<rparr>))"

definition Commit :: "env \<Rightarrow> world \<Rightarrow> string \<Rightarrow> int \<Rightarrow> int \<Rightarrow> tx_error option \<times> world" where
  "Commit e w message confirmTimeout overallTimeout =
     (if state w \<noteq> StateIdle then (Some (TransactionInProgress (state w)), w)
      else if \<not> HasChanges w then (Some NoChangesToCommit, w)
      else
        (let w1 = publish (EventTransactionStarted message) (w\<lparr>state := StateInProgress\<rparr>);
             changedConfigs = GetChanges w1
         in case Create e w1 message changedConfigs of
              (Inl err, w2) \<Rightarrow> (Some (CreateSnapshotFailed err), w2\<lparr>state := StateFailed\<rparr>)
            | (Inr snapshot, w2) \<Rightarrow>
               (let w3 = publish (EventSnapshotCreated (ID snapshot))
                           (w2\<lparr>currentSnapshot := Some snapshot\<rparr>)
                in case Commit_config e w3 of
                     (Some err, w4) \<Rightarrow> (Some (CommitConfigsFailed err), w4\<lparr>state := StateFailed\<rparr>)
                   | (None, w4) \<Rightarrow>
                      (case apply_loop e (overallTimeout > 0) 0 changedConfigs (applyOrder w4) w4 of
                         (Some err, w5) \<Rightarrow> (Some err, w5)
                       | (None, w5) \<Rightarrow> (None, finish_commit e snapshot confirmTimeout w5)))))"

subsection \<open>Confirm and the confirmation timer\<close>

text \<open>\<open>util.SafeClose\<close>: close the channel unless it is closed already.\<close>

definition SafeClose :: "nat \<Rightarrow> world \<Rightarrow> world" where
  "SafeClose ch w = (if ch \<in> set (closedChans w) then w else w\<lparr>closedChans := closedChans w @ [ch]\<rparr>)"

definition Confirm :: "world \<Rightarrow> tx_error option \<times> world" where
  "Confirm w =
     (if state w \<noteq> StatePending then (Some (NoPendingConfirmation (state w)), w)
      else
        (let w1 = (case confirmCancelCh w of
                     Some ch \<Rightarrow> (SafeClose ch w)\<lparr>confirmCancelCh := None\<rparr>
                   | None \<Rightarrow> w)
         in (None, publish EventTransactionCompleted
                     (w1\<lparr>state := StateCompleted, pendingConfirm := None\<rparr>))))"

text \<open>
  The goroutine \<open>confirmationTimer\<close> waits in a \<open>select\<close> on its timer and on the cancel
  channel \<open>ch\<close> that \<open>Commit\<close> made for it.  \<open>TimerFired\<close> is the first case: under the
  mutex, roll back if the state is still pending.  \<open>CancelReceived\<close> is the second case,
  which a closed channel opens: do nothing.  Either way the goroutine ends.
  \<open>confirmationTimer\<close> is what the goroutine does once \<open>select\<close> has taken a case.
  The goroutine reads the field \<open>m.confirmCancelCh\<close> when it reaches the \<open>select\<close>; here
  it is taken to read the channel that \<open>Commit\<close> had just made.
\<close>

datatype select_case = TimerFired | CancelReceived

definition confirmationTimer :: "env \<Rightarrow> select_case \<Rightarrow> nat \<Rightarrow> world \<Rightarrow> world" where
  "confirmationTimer e c ch w =
     (case c of
        TimerFired \<Rightarrow>
          (let w1 = (if state w = StatePending then snd (rollbackInternal e background w) else w)
           in w1\<lparr>timers := filter (\<lambda>t. fst t \<noteq> ch) (timers w1)\<rparr>)
      | CancelReceived \<Rightarrow> w\<lparr>timers := filter (\<lambda>t. fst t \<noteq> ch) (timers w)\<rparr>)"

text \<open>
  Which case \<open>select\<close> can take: the first once the timer has fired, that is from the
  instant \<open>timeout\<close> after the timer was made; the second once the channel is closed.
  When both can be taken Go takes either.  The goroutine takes its case some time after
  the case has opened, not at that instant: until it does, and has the mutex, any other
  operation can come first.
\<close>

definition select_ready :: "select_case \<Rightarrow> nat \<Rightarrow> world \<Rightarrow> bool" where
  "select_ready c ch w =
     (case map_of (timers w) ch of
        None \<Rightarrow> False
      | Some fires \<Rightarrow>
         (case c of
            TimerFired \<Rightarrow> fires \<le> clock w
          | CancelReceived \<Rightarrow> ch \<in> set (closedChans w)))"

text \<open>One step of the goroutine with channel \<open>ch\<close>: \<open>None\<close> while it has to wait.\<close>

definition timer_step :: "env \<Rightarrow> select_case \<Rightarrow> nat \<Rightarrow> world \<Rightarrow> world option" where
  "timer_step e c ch w =
     (if select_ready c ch w then Some (confirmationTimer e c ch w) else None)"

text \<open>Time passes: \<open>d\<close> nanoseconds.\<close>

definition elapse :: "nat \<Rightarrow> world \<Rightarrow> world" where
  "elapse d w = w\<lparr>clock := clock w + int d\<rparr>"

section \<open>Notions used to state the properties\<close>

text \<open>A text made of the given lines, each ended by a line feed.\<close>

definition join_lines :: "string list \<Rightarrow> string" where
  "join_lines ls = concat (map (\<lambda>l. l @ [LF]) ls)"

text \<open>\<open>p = (line, value)\<close>: after trimming, the line is \<open>option\<close> followed by two tokens,
  the key \<open>k\<close> and the value.\<close>

definition option_line_for :: "string \<Rightarrow> string \<times> string \<Rightarrow> bool" where
  "option_line_for k p =
     (HasPrefix (TrimSpace (fst p)) ''option '' \<and>
      parseQuotedLine (drop 7 (TrimSpace (fst p))) = [k, snd p])"

text \<open>A line that leaves the option \<open>k\<close> of the open section alone: blank, a comment,
  an \<open>option\<close> line with two tokens and another key, or a \<open>list\<close> line with two tokens.\<close>

definition other_line :: "string \<Rightarrow> string \<Rightarrow> bool" where
  "other_line k l =
     (let t = TrimSpace l in
      t = [] \<or> HasPrefix t ''#'' \<or>
      (HasPrefix t ''option '' \<and> length (parseQuotedLine (drop 7 t)) = 2 \<and>
         parseQuotedLine (drop 7 t) ! 0 \<noteq> k) \<or>
      (HasPrefix t ''list '' \<and> length (parseQuotedLine (drop 5 t)) = 2))"

text \<open>The document \<open>Parse\<close> returns from the last state of its loop: the open section,
  if any, is added.\<close>

definition last_added :: "Config \<times> Section option \<Rightarrow> Config" where
  "last_added st = (case snd st of None \<Rightarrow> fst st | Some s \<Rightarrow> AddSection (fst st) s)"


text \<open>The state of the parser on some text read alone, against its state on the same
  text read after a section \<open>s\<close> was left open behind the sections \<open>before\<close>.\<close>

definition follows :: "Section list \<Rightarrow> Section \<Rightarrow> Config \<times> Section option \<Rightarrow> Config \<times> Section option \<Rightarrow> bool" where
  "follows before s st st' =
     ((snd st = None \<and> Sections (fst st) = [] \<and> Sections (fst st') = before \<and> snd st' = Some s) \<or>
      (snd st \<noteq> None \<and> snd st' = snd st \<and> Sections (fst st') = before @ s # Sections (fst st)))"





text \<open>What \<open>sort.Slice\<close> promises for the \<open>less\<close> of \<open>List\<close>: the result holds every snapshot
  as often as the argument does, and no snapshot in it is newer than one before it.\<close>

definition sorts_newest_first ::
  "((Snapshot \<Rightarrow> Snapshot \<Rightarrow> bool) \<Rightarrow> Snapshot list \<Rightarrow> Snapshot list) \<Rightarrow> bool" where
  "sorts_newest_first srt =
     (\<forall>xs. (\<forall>x. count_list (srt newer xs) x = count_list xs x) \<and>
           sorted_wrt (\<lambda>a b. \<not> newer b a) (srt newer xs))"

text \<open>The decimal numeral of a number, and the dotted netmask with \<open>n\<close> leading one
  bits, computed from the 32-bit value \<open>2^32 - 2^(32 - n)\<close>.\<close>

fun decimal :: "nat \<Rightarrow> string" where
  "decimal n =
     (if n < 10 then [''0123456789'' ! n]
      else decimal (n div 10) @ [''0123456789'' ! (n mod 10)])"

definition netmask_of_prefix :: "nat \<Rightarrow> string" where
  "netmask_of_prefix n =
     (let m = (2 :: nat) ^ 32 - 2 ^ (32 - n) in
      decimal (m div 2 ^ 24 mod 256) @ ''.'' @ decimal (m div 2 ^ 16 mod 256) @ ''.'' @
      decimal (m div 2 ^ 8 mod 256) @ ''.'' @ decimal (m mod 256))"

text \<open>A file of a snapshot that validation must reject: it is missing, or its digest
  differs from the stored checksum, or it does not parse.\<close>

definition corrupt_file ::
  "env \<Rightarrow> (string \<rightharpoonup> string) \<Rightarrow> (string \<times> string) list \<Rightarrow> string \<Rightarrow> bool" where
  "corrupt_file e files cks n =
     (case files n of
        None \<Rightarrow> True
      | Some data \<Rightarrow>
          (case map_of cks n of Some x \<Rightarrow> sha256hex e data \<noteq> x | None \<Rightarrow> False) \<or>
          (case Parse data of Inl pe \<Rightarrow> True | Inr c \<Rightarrow> False))"

text \<open>The validation errors that report a corrupted snapshot.\<close>

fun is_corrupt :: "validation_error \<Rightarrow> bool" where
  "is_corrupt (SnapshotFileMissing n) = True"
| "is_corrupt (ChecksumMismatch n x y) = True"
| "is_corrupt (InvalidUCI n pe) = True"
| "is_corrupt verr = False"

subsection \<open>Sample data\<close>

text \<open>A document with one option whose value is \<open>it's\<close>.\<close>

definition quote_doc :: Config where
  "quote_doc =
     \<lparr>Sections = [\<lparr>Type = ''a'', Name = [], Options = [(''k'', ''it'' @ [SQ] @ ''s'')], Lists = []\<rparr>]\<rparr>"

definition wan_pre :: "string list" where
  "wan_pre = [''config interface '' @ [SQ] @ ''wan'' @ [SQ], [TAB] @ ''option proto static'']"

definition wan_ovs :: "(string \<times> string) list" where
  "wan_ovs = [([TAB] @ ''option proto '' @ [SQ] @ ''dhcp'' @ [SQ], ''dhcp''),
              (''option '' @ [DQ] @ ''proto'' @ [DQ] @ '' none'' @ [CR], ''none'')]"

text \<open>More lines of the section \<open>wan\<close>, and a section after it.\<close>

definition lan_mid :: "string list" where
  "lan_mid = [''# dns servers'', [TAB] @ ''list dns 8.8.8.8'', [], [TAB] @ ''option mtu 1500'']"

definition lan_post :: "string list" where
  "lan_post = [''config rule'', [TAB] @ ''option proto tcp'']"

text \<open>A sort by insertion, for the sample environments.  It is not stable: of two
  elements neither of which is \<open>less\<close> than the other, the one that came first ends up
  behind.\<close>

fun insert_sorted :: "('a \<Rightarrow> 'a \<Rightarrow> bool) \<Rightarrow> 'a \<Rightarrow> 'a list \<Rightarrow> 'a list" where
  "insert_sorted lt x [] = [x]"
| "insert_sorted lt x (y # ys) =
     (if lt x y then x # y # ys else y # insert_sorted lt x ys)"

fun insertion_sort :: "('a \<Rightarrow> 'a \<Rightarrow> bool) \<Rightarrow> 'a list \<Rightarrow> 'a list" where
  "insertion_sort lt [] = []"
| "insertion_sort lt (x # xs) = insert_sorted lt x (insertion_sort lt xs)"

text \<open>An environment in which nothing fails: the three appliers are registered, the
  stand-in for the digest marks the data it is given.\<close>

definition quiet_env :: env where
  "quiet_env =
     \<lparr>io_fails = (\<lambda>op. False),
      sha256hex = (\<lambda>data. ''sha256:'' @ data),
      registered = (\<lambda>n. n = ''network'' \<or> n = ''firewall'' \<or> n = ''dhcp''),
      apply_fails = (\<lambda>n c. False),
      validate_fails = (\<lambda>n. False),
      new_id = ''20240101-120000-000-ab12'',
      version = ''1.0.0'',
      disk_space_ok = True,
      ctx_done = (\<lambda>k. False),
      sort_slice = insertion_sort\<rparr>"

text \<open>The \<open>network\<close> document of the scenarios: one interface \<open>wan\<close> with an address.\<close>

definition wan_doc :: "string \<Rightarrow> Config" where
  "wan_doc ipaddr =
     \<lparr>Sections = [\<lparr>Type = ''interface'', Name = ''wan'',
                    Options = [(''ipaddr'', ipaddr)], Lists = []\<rparr>]\<rparr>"

definition zone_doc :: Config where
  "zone_doc = \<lparr>Sections = [\<lparr>Type = ''zone'', Name = [], Options = [(''masq'', ''1'')], Lists = []\<rparr>]\<rparr>"

text \<open>An idle engine over an active directory that holds \<open>network\<close>, with no snapshot
  and nothing staged.\<close>

definition seed_world :: world where
  "seed_world =
     \<lparr>active = [''network'' \<mapsto> Write (wan_doc ''192.168.1.1'')],
      snapshots = [],
      staged = [],
      state = StateIdle,
      currentSnapshot = None,
      pendingConfirm = None,
      confirmCancelCh = None,
      applyOrder = [''network'', ''firewall'', ''dhcp''],
      nextChan = 0,
      closedChans = [],
      timers = [],
      clock = 1000,
      syscalls = [],
      events = []\<rparr>"

text \<open>The same with a new address for \<open>wan\<close> staged, as \<open>set\<close> leaves it.\<close>

definition staged_world :: world where
  "staged_world = seed_world\<lparr>staged := [(''network'', wan_doc ''192.168.1.100'')]\<rparr>"

text \<open>Two documents staged, and an environment in which writing the second one fails.\<close>

definition two_staged_world :: world where
  "two_staged_world =
     seed_world\<lparr>staged := [(''network'', wan_doc ''192.168.1.100''), (''firewall'', zone_doc)]\<rparr>"

definition firewall_write_fails :: env where
  "firewall_write_fails = quiet_env\<lparr>io_fails := (\<lambda>op. op = WriteTmp ''firewall'')\<rparr>"

text \<open>A snapshot of \<open>network\<close> whose file was cut short after the snapshot was taken: the
  checksum in the metadata is that of the full file.\<close>

definition truncated_world :: world where
  "truncated_world =
     seed_world\<lparr>snapshots :=
       [(''20240101-120000-000-ab12'',
         SnapDir (MetaOK \<lparr>Timestamp = 1000, Message = ''m'', Configs = [''network''],
                           MetaID = ''20240101-120000-000-ab12'', Version = ''1.0.0'',
                           Checksums = [(''network'', ''sha256:config interface'')]\<rparr>)
                 [''network'' \<mapsto> ''config''])]\<rparr>"

text \<open>A snapshot directory with four snapshots, taken at the times 30, 10, 20 and
  again 10, a stray file and a directory without metadata.\<close>

definition sample_meta :: "string \<Rightarrow> int \<Rightarrow> Metadata" where
  "sample_meta sid t =
     \<lparr>Timestamp = t, Message = ''m'', Configs = [], MetaID = sid, Version = ''1.0.0'',
      Checksums = []\<rparr>"

definition four_snapshots_world :: world where
  "four_snapshots_world =
     seed_world\<lparr>snapshots :=
       [(''s-a'', SnapDir (MetaOK (sample_meta ''s-a'' 30)) Map.empty),
        (''notes.txt'', PlainFile),
        (''s-b'', SnapDir (MetaOK (sample_meta ''s-b'' 10)) Map.empty),
        (''tmp'', SnapDir MetaMissing Map.empty),
        (''s-c'', SnapDir (MetaOK (sample_meta ''s-c'' 20)) Map.empty),
        (''s-d'', SnapDir (MetaOK (sample_meta ''s-d'' 10)) Map.empty)]\<rparr>"



text \<open>An environment in which the directory of the snapshot \<open>s-b\<close> cannot be removed;
  one that names the next snapshot differently; and the world in which the
  transaction of \<open>staged_world\<close> is pending, with a window of two seconds.\<close>

definition remove_fails_env :: env where
  "remove_fails_env = quiet_env\<lparr>io_fails := (\<lambda>op. op = RemoveAll ''s-b'')\<rparr>"





section \<open>Properties\<close>

subsection \<open>The parser: repeated option keys\<close>

lemma scan_lines_line:
  "LF \<notin> set l \<Longrightarrow>
   scan_lines cur (l @ LF # rest) =
     (if MaxScanTokenSize \<le> utf8_len (cur @ l) then ([], True)
      else (case scan_lines [] rest of (ls, e) \<Rightarrow> (dropCR (cur @ l) # ls, e)))"
  by (induction l arbitrary: cur) auto

lemma scan_lines_join:
  "\<forall>l\<in>set ls. LF \<notin> set l \<and> utf8_len l < MaxScanTokenSize \<Longrightarrow>
   scan_lines [] (join_lines ls) = (map dropCR ls, False)"
proof (induction ls)
  case Nil
  then show ?case by (simp add: join_lines_def)
next
  case (Cons l ls)
  then have "scan_lines [] (join_lines ls) = (map dropCR ls, False)" by simp
  moreover have "join_lines (l # ls) = l @ LF # join_lines ls" by (simp add: join_lines_def)
  ultimately show ?case using Cons.prems by (simp add: scan_lines_line)
qed

lemma TrimSpace_snoc_space:
  assumes "isSpace c"
  shows "TrimSpace (s @ [c]) = TrimSpace s"
proof (cases "\<forall>x\<in>set s. isSpace x")
  case True
  then have a: "dropWhile isSpace s = []" by simp
  from True assms have b: "dropWhile isSpace (s @ [c]) = []" by simp
  show ?thesis unfolding TrimSpace_def a b by simp
next
  case False
  with assms show ?thesis by (auto simp: TrimSpace_def dropWhile_append)
qed

lemma TrimSpace_dropCR: "TrimSpace (dropCR l) = TrimSpace l"
proof (cases "l \<noteq> [] \<and> last l = CR")
  case True
  then have "l = butlast l @ [CR]" by (metis append_butlast_last_id)
  then have "TrimSpace l = TrimSpace (butlast l)"
    by (metis TrimSpace_snoc_space isSpace_def)
  with True show ?thesis by (simp add: dropCR_def)
next
  case False
  then show ?thesis by (auto simp: dropCR_def)
qed

lemma parse_line_dropCR: "parse_line n (dropCR l) st = parse_line n l st"
  by (simp add: parse_line_def TrimSpace_dropCR)

lemma parse_loop_dropCR: "parse_loop n (map dropCR ls) st = parse_loop n ls st"
  by (induction ls arbitrary: n st) (auto simp: parse_line_dropCR split: sum.splits)

lemma parse_loop_append:
  "parse_loop n (xs @ ys) st =
     (case parse_loop n xs st of Inl e \<Rightarrow> Inl e | Inr st' \<Rightarrow> parse_loop (n + length xs) ys st')"
  by (induction xs arbitrary: n st) (auto split: sum.splits)

lemma map_of_assign: "map_of (assign k v ps) = (map_of ps)(k \<mapsto> v)"
  by (induction ps) (auto simp: fun_eq_iff)

lemma HasPrefix_appendI: "HasPrefix (p @ r) p"
  by (simp add: HasPrefix_def)

lemma HasPrefix_split: "HasPrefix s p \<Longrightarrow> s = p @ drop (length p) s"
  by (metis HasPrefix_def append_take_drop_id)

lemma parse_line_option:
  assumes "option_line_for k p"
  shows "parse_line n (fst p) (cfg, Some s) = Inr (cfg, Some (SetOption s k (snd p)))"
proof -
  define t where "t = TrimSpace (fst p)"
  from assms have opt: "HasPrefix t ''option ''"
    and parts: "parseQuotedLine (drop 7 t) = [k, snd p]"
    by (simp_all add: option_line_for_def t_def)
  from HasPrefix_split [OF opt] obtain r where t: "t = ''option '' @ r" by blast
  have ne: "t \<noteq> []" and nohash: "\<not> HasPrefix t ''#''" and nocfg: "\<not> HasPrefix t ''config ''"
    by (simp_all add: t HasPrefix_def)
  show ?thesis
    using ne nohash nocfg opt parts by (simp add: parse_line_def Let_def t_def [symmetric])
qed


lemma parse_loop_options:
  "\<forall>p\<in>set ovs. option_line_for k p \<Longrightarrow>
   parse_loop n (map fst ovs) (cfg, Some s) =
     Inr (cfg, Some (foldl (\<lambda>s p. SetOption s k (snd p)) s ovs))"
proof (induction ovs arbitrary: n s)
  case Nil
  then show ?case by simp
next
  case (Cons p ps)
  then have "parse_line (Suc n) (fst p) (cfg, Some s) = Inr (cfg, Some (SetOption s k (snd p)))"
    by (simp add: parse_line_option [of k p])
  with Cons show ?case by simp
qed

lemma GetOption_SetOption:
  "GetOption (SetOption s k v) k' = (if k' = k then Some v else GetOption s k')"
  by (simp add: GetOption_def SetOption_def map_of_assign)

lemma foldl_SetOption_last:
  "ovs \<noteq> [] \<Longrightarrow>
   GetOption (foldl (\<lambda>s p. SetOption s k (snd p)) s ovs) k = Some (snd (last ovs))"
proof (induction ovs arbitrary: s)
  case Nil
  then show ?case by simp
next
  case (Cons p ps)
  then show ?case by (cases "ps = []") (simp_all add: GetOption_SetOption)
qed

lemma foldl_SetOption_fields:
  "Type (foldl (\<lambda>s p. SetOption s k (snd p)) s ovs) = Type s \<and>
   Name (foldl (\<lambda>s p. SetOption s k (snd p)) s ovs) = Name s \<and>
   Lists (foldl (\<lambda>s p. SetOption s k (snd p)) s ovs) = Lists s"
  by (induction ovs arbitrary: s) (simp_all add: SetOption_def)

lemma HasPrefix_option_facts:
  assumes "HasPrefix t ''option ''"
  shows "t \<noteq> []" "\<not> HasPrefix t ''#''" "\<not> HasPrefix t ''config ''"
proof -
  from HasPrefix_split [OF assms] obtain r where t: "t = ''option '' @ r" by blast
  show "t \<noteq> []" "\<not> HasPrefix t ''#''" "\<not> HasPrefix t ''config ''"
    by (simp_all add: t HasPrefix_def)
qed

lemma HasPrefix_list_facts:
  assumes "HasPrefix t ''list ''"
  shows "t \<noteq> []" "\<not> HasPrefix t ''#''" "\<not> HasPrefix t ''config ''" "\<not> HasPrefix t ''option ''"
proof -
  from HasPrefix_split [OF assms] obtain r where t: "t = ''list '' @ r" by blast
  show "t \<noteq> []" "\<not> HasPrefix t ''#''" "\<not> HasPrefix t ''config ''" "\<not> HasPrefix t ''option ''"
    by (simp_all add: t HasPrefix_def)
qed

lemma parse_line_other:
  assumes "other_line k l"
  shows "\<exists>s'. parse_line n l (cfg, Some s) = Inr (cfg, Some s') \<and>
           GetOption s' k = GetOption s k \<and> Type s' = Type s \<and> Name s' = Name s"
proof -
  define t where "t = TrimSpace l"
  from assms consider
      (skip) "t = [] \<or> HasPrefix t ''#''"
    | (opt) "HasPrefix t ''option ''" "length (parseQuotedLine (drop 7 t)) = 2"
        "parseQuotedLine (drop 7 t) ! 0 \<noteq> k"
    | (lst) "HasPrefix t ''list ''" "length (parseQuotedLine (drop 5 t)) = 2"
    unfolding other_line_def Let_def t_def by blast
  then show ?thesis
  proof cases
    case skip
    then show ?thesis by (auto simp: parse_line_def Let_def t_def [symmetric])
  next
    case opt
    with HasPrefix_option_facts [OF opt(1)] show ?thesis
      by (simp add: parse_line_def Let_def t_def [symmetric] GetOption_SetOption)
        (simp add: SetOption_def)
  next
    case lst
    with HasPrefix_list_facts [OF lst(1)] show ?thesis
      by (simp add: parse_line_def Let_def t_def [symmetric] AddListValue_def GetOption_def)
  qed
qed

lemma parse_loop_other:
  "\<forall>l\<in>set mid. other_line k l \<Longrightarrow>
   \<exists>s'. parse_loop n mid (cfg, Some s) = Inr (cfg, Some s') \<and>
        GetOption s' k = GetOption s k \<and> Type s' = Type s \<and> Name s' = Name s"
proof (induction mid arbitrary: n s)
  case Nil
  then show ?case by simp
next
  case (Cons l mid)
  then have "other_line k l" by simp
  from parse_line_other [OF this, of "Suc n" cfg s] obtain s1 where
    s1: "parse_line (Suc n) l (cfg, Some s) = Inr (cfg, Some s1)"
      "GetOption s1 k = GetOption s k" "Type s1 = Type s" "Name s1 = Name s" by blast
  from Cons have "\<forall>l\<in>set mid. other_line k l" by simp
  from Cons.IH [OF this, of "Suc n" s1] s1 show ?case by auto
qed

lemma parse_line_follows:
  assumes "follows before s st st'" and "parse_line n l st = Inr st1"
  shows "\<exists>st1'. parse_line m l st' = Inr st1' \<and> follows before s st1 st1'"
proof -
  obtain c cur where st: "st = (c, cur)" by (cases st)
  obtain c' cur' where st': "st' = (c', cur')" by (cases st')
  show ?thesis
  proof (cases cur)
    case None
    with assms st st' show ?thesis
      by (auto simp: follows_def parse_line_def Let_def AddSection_def split: if_splits)
  next
    case (Some x)
    with assms st st' show ?thesis
      by (auto simp: follows_def parse_line_def Let_def AddSection_def split: if_splits)
  qed
qed

lemma parse_loop_follows:
  "follows before s st st' \<Longrightarrow> parse_loop n ls st = Inr st1 \<Longrightarrow>
   \<exists>st1'. parse_loop m ls st' = Inr st1' \<and> follows before s st1 st1'"
proof (induction ls arbitrary: n m st st')
  case Nil
  then show ?case by simp
next
  case (Cons l ls)
  from Cons.prems(2) obtain st2 where
    a: "parse_line (Suc n) l st = Inr st2" and b: "parse_loop (Suc n) ls st2 = Inr st1"
    by (auto split: sum.splits)
  from parse_line_follows [OF Cons.prems(1) a, of "Suc m"] obtain st2' where
    c: "parse_line (Suc m) l st' = Inr st2'" and d: "follows before s st2 st2'" by blast
  from Cons.IH [OF d b, of "Suc m"] c show ?case by auto
qed

lemma follows_last_added:
  "follows before s st st' \<Longrightarrow>
   Sections (last_added st') = before @ s # Sections (last_added st)"
  by (auto simp: follows_def last_added_def AddSection_def split: option.splits)

text \<open>
  Claim C9.  Take a text of four runs of lines: lines \<open>pre\<close> that parse and leave a
  section \<open>s\<close> open (they may set \<open>k\<close> in it already); one or more \<open>option\<close> lines that
  all have the key \<open>k\<close>; lines \<open>mid\<close> of the same section that are blank, comments,
  \<open>list\<close> lines or \<open>option\<close> lines with another key; and lines \<open>post\<close> that parse
  on their own (so they are empty or begin a new section).  Then \<open>Parse\<close> succeeds on the
  whole text, no line is rejected for repeating the key, and the section, which keeps
  its type and name and stands after the sections read before it, has for \<open>k\<close> the value
  of the last of the \<open>option\<close> lines with that key.  The lines are such as the scanner
  delivers: free of line feeds and shorter than its token limit.
\<close>

theorem Parse_repeated_option_last_wins:
  assumes pre: "parse_loop 0 pre (NewConfig, None) = Inr (cfg, Some s)"
    and ne: "ovs \<noteq> []"
    and opt: "\<forall>p\<in>set ovs. option_line_for k p"
    and mid: "\<forall>l\<in>set mid. other_line k l"
    and post: "parse_loop 0 post (NewConfig, None) = Inr stp"
    and scan: "\<forall>l\<in>set (pre @ map fst ovs @ mid @ post). LF \<notin> set l \<and> utf8_len l < MaxScanTokenSize"
  shows "\<exists>s' c. Parse (join_lines (pre @ map fst ovs @ mid @ post)) = Inr c
           \<and> Sections c = Sections cfg @ s' # Sections (last_added stp)
           \<and> GetOption s' k = Some (snd (last ovs))
           \<and> Type s' = Type s \<and> Name s' = Name s"
proof -
  let ?all = "pre @ map fst ovs @ mid @ post"
  let ?s1 = "foldl (\<lambda>s p. SetOption s k (snd p)) s ovs"
  have sc: "scan_lines [] (join_lines ?all) = (map dropCR ?all, False)"
    using scan by (rule scan_lines_join)
  from parse_loop_other [OF mid, of "length pre + length ovs" cfg ?s1] obtain s' where
    p2: "parse_loop (length pre + length ovs) mid (cfg, Some ?s1) = Inr (cfg, Some s')"
    and s': "GetOption s' k = GetOption ?s1 k" "Type s' = Type ?s1" "Name s' = Name ?s1"
    by blast
  have f: "follows (Sections cfg) s' (NewConfig, None) (cfg, Some s')"
    by (simp add: follows_def NewConfig_def)
  from parse_loop_follows [OF f post, of "length pre + length ovs + length mid"] obtain st' where
    p3: "parse_loop (length pre + length ovs + length mid) post (cfg, Some s') = Inr st'"
    and f': "follows (Sections cfg) s' stp st'" by blast
  have "parse_loop 0 ?all (NewConfig, None) = Inr st'"
    using pre opt p2 p3 by (simp add: parse_loop_append parse_loop_options)
  then have pl: "parse_loop 0 (map dropCR ?all) (NewConfig, None) = Inr st'"
    by (simp only: parse_loop_dropCR)
  have "Parse (join_lines ?all) = Inr (last_added st')"
    by (simp only: Parse_def sc prod.case pl sum.case Let_def if_False last_added_def)
  moreover have "Sections (last_added st') = Sections cfg @ s' # Sections (last_added stp)"
    using f' by (rule follows_last_added)
  moreover have "GetOption s' k = Some (snd (last ovs))"
    using s'(1) ne by (simp add: foldl_SetOption_last)
  moreover have "Type s' = Type s" "Name s' = Name s"
    using s'(2,3) foldl_SetOption_fields [of k s ovs] by simp_all
  ultimately show ?thesis by blast
qed

lemma wan_pre_parses: "parse_loop 0 wan_pre (NewConfig, None)
      = Inr (NewConfig, Some \<lparr>Type = ''interface'', Name = ''wan'', Options = [(''proto'', ''static'')], Lists = []\<rparr>)"
    by code_simp
lemma wan_ovs_option_lines: "\<forall>p\<in>set wan_ovs. option_line_for ''proto'' p" by code_simp
lemma wan_lines_scannable: "\<forall>l\<in>set (wan_pre @ map fst wan_ovs). LF \<notin> set l \<and> utf8_len l < MaxScanTokenSize"
    by (simp add: wan_pre_def wan_ovs_def MaxScanTokenSize_def)

lemma lan_mid_other: "\<forall>l\<in>set lan_mid. other_line ''proto'' l"
  by (simp add: lan_mid_def other_line_def TrimSpace_def isSpace_def HasPrefix_def parseQuotedLine_def)

lemma lan_post_parses:
  "parse_loop 0 lan_post (NewConfig, None)
     = Inr (NewConfig, Some \<lparr>Type = ''rule'', Name = [], Options = [(''proto'', ''tcp'')], Lists = []\<rparr>)"
  by (simp add: lan_post_def parse_line_def TrimSpace_def isSpace_def HasPrefix_def parseQuotedLine_def
      NewConfig_def NewSection_def AddSection_def SetOption_def)

lemma wan_all_scannable:
  "\<forall>l\<in>set (wan_pre @ map fst wan_ovs @ lan_mid @ lan_post). LF \<notin> set l \<and> utf8_len l < MaxScanTokenSize"
  by (simp add: wan_pre_def wan_ovs_def lan_mid_def lan_post_def MaxScanTokenSize_def)

theorem Parse_repeated_option_last_wins_witness:
  "\<exists>s' c. Parse (join_lines (wan_pre @ map fst wan_ovs @ lan_mid @ lan_post)) = Inr c
       \<and> Sections c = [s', \<lparr>Type = ''rule'', Name = [], Options = [(''proto'', ''tcp'')], Lists = []\<rparr>]
       \<and> GetOption s' ''proto'' = Some ''none''
       \<and> Type s' = ''interface'' \<and> Name s' = ''wan''"
proof -
  have ne: "wan_ovs \<noteq> []" by (simp add: wan_ovs_def)
  have l: "snd (last wan_ovs) = ''none''" by (simp add: wan_ovs_def)
  from Parse_repeated_option_last_wins
    [OF wan_pre_parses ne wan_ovs_option_lines lan_mid_other lan_post_parses wan_all_scannable]
  show ?thesis
    by (simp add: l last_added_def AddSection_def NewConfig_def)
qed

subsection \<open>The codec: parse after emit\<close>

lemmas uci_eval =
  Write_def write_section_def write_header_def write_option_def write_list_def escapeQuotes_def
  Parse_def MaxScanTokenSize_def dropCR_def parse_line_def TrimSpace_def isSpace_def HasPrefix_def
  parseQuotedLine_def NewConfig_def NewSection_def AddSection_def SetOption_def AddListValue_def

text \<open>
  Claim C1.  \<open>Write\<close> escapes a single quote of a value as a backslash and a quote, and
  \<open>parseQuotedLine\<close> knows no escape: the quote ends the token, the rest of the value
  becomes a third token and \<open>Parse\<close> rejects the line.  For the document \<open>quote_doc\<close>,
  whose one option has the value \<open>it's\<close>, the text that \<open>Write\<close> emits does not parse.
\<close>

theorem Parse_Write_single_quote_fails:
  "Write quote_doc = ''config a'' @ [LF, TAB] @ ''option '' @ [SQ] @ ''k'' @ [SQ] @ '' ''
                       @ [SQ] @ ''it'' @ [BSL, SQ] @ ''s'' @ [SQ, LF]
   \<and> Parse (Write quote_doc) = Inl (InvalidOptionLine 2)"
  by (simp add: quote_doc_def uci_eval)

subsection \<open>Dotted paths\<close>











subsection \<open>The netmask table\<close>

lemma netmask_table:
  "map netmask_of_prefix [8..<33] = rev (map fst masks)"
  by (simp add: masks_def netmask_of_prefix_def upt_rec)

lemma prefix_range: "{8..32::nat} = set [8..<33]"
proof -
  have "{8..32::nat} = {8..<33}" by auto
  then show ?thesis by (simp only: atLeastLessThan_upt)
qed

lemma masks_hit:
  "\<forall>n\<in>set [8..<33]. convertNetmaskToCIDR (netmask_of_prefix n) = int n"
  by (simp add: upt_rec convertNetmaskToCIDR_def masks_def netmask_of_prefix_def)

lemma masks_keys: "fst ` set masks = netmask_of_prefix ` {8..32}"
proof -
  have "fst ` set masks = set (rev (map fst masks))" by simp
  also have "\<dots> = set (map netmask_of_prefix [8..<33])" by (simp only: netmask_table)
  also have "\<dots> = netmask_of_prefix ` {8..32}" by (simp only: set_map prefix_range)
  finally show ?thesis .
qed

text \<open>
  Claim C8.  For every prefix length \<open>n\<close> from 8 to 32, \<open>convertNetmaskToCIDR\<close> maps the
  dotted netmask with \<open>n\<close> leading one bits to \<open>n\<close>; every other string is mapped to 24.
\<close>

theorem convertNetmaskToCIDR_table:
  "(\<forall>n\<in>{8..32}. convertNetmaskToCIDR (netmask_of_prefix n) = int n)
   \<and> (\<forall>s. s \<notin> netmask_of_prefix ` {8..32} \<longrightarrow> convertNetmaskToCIDR s = 24)"
proof (intro conjI allI impI)
  show "\<forall>n\<in>{8..32}. convertNetmaskToCIDR (netmask_of_prefix n) = int n"
    using masks_hit by (simp only: prefix_range)
next
  fix s assume "s \<notin> netmask_of_prefix ` {8..32}"
  then have "s \<notin> fst ` set masks" using masks_keys by simp
  then have "map_of masks s = None" by (simp add: map_of_eq_None_iff)
  then show "convertNetmaskToCIDR s = 24"
    by (simp add: convertNetmaskToCIDR_def DefaultCIDR_def)
qed

theorem convertNetmaskToCIDR_table_witness:
  "netmask_of_prefix 20 = ''255.255.240.0''
   \<and> convertNetmaskToCIDR ''255.255.240.0'' = 20
   \<and> convertNetmaskToCIDR ''255.0.255.0'' = 24
   \<and> convertNetmaskToCIDR ''garbage'' = 24"
proof -
  have n: "netmask_of_prefix 20 = ''255.255.240.0''"
    by (simp add: netmask_of_prefix_def)
  have keys: "netmask_of_prefix ` {8..32} = set (rev (map fst masks))"
    by (simp only: prefix_range netmask_table [symmetric] set_map)
  have a: "''255.0.255.0'' \<notin> netmask_of_prefix ` {8..32}"
    unfolding keys by (simp add: masks_def)
  have b: "''garbage'' \<notin> netmask_of_prefix ` {8..32}"
    unfolding keys by (simp add: masks_def)
  have c: "(20::nat) \<in> {8..32}" by simp
  from convertNetmaskToCIDR_table have
    "convertNetmaskToCIDR (netmask_of_prefix 20) = int 20"
    "convertNetmaskToCIDR ''255.0.255.0'' = 24"
    "convertNetmaskToCIDR ''garbage'' = 24"
    using a b c by blast+
  with n show ?thesis by simp
qed

subsection \<open>The configuration store: Commit\<close>

lemma commit_loop_ok_iff:
  "fst (commit_loop e st files) = None \<longleftrightarrow>
   (\<forall>n\<in>set (map fst st).
      \<not> io_fails e (CreateTmp n) \<and> \<not> io_fails e (WriteTmp n) \<and> \<not> io_fails e (RenameTmp n))"
  by (induction st arbitrary: files) (auto simp: Let_def)

lemma commit_loop_failure_keeps_written:
  "commit_loop e st files = (Some err, files') \<Longrightarrow>
   \<exists>wr rest fd. st = wr @ rest \<and> commit_loop e wr files = (None, fd) \<and>
      (\<forall>p. p \<notin> set (map (\<lambda>nc. fst nc @ ''.tmp'') (take 1 rest)) \<longrightarrow> files' p = fd p)"
proof (induction st arbitrary: files)
  case Nil
  then show ?case by simp
next
  case (Cons nc st)
  let ?tmp = "fst nc @ ''.tmp''"
  let ?next = "((files(?tmp \<mapsto> Write (snd nc)))(?tmp := None))(fst nc \<mapsto> Write (snd nc))"
  show ?case
  proof (cases "io_fails e (CreateTmp (fst nc)) \<or> io_fails e (WriteTmp (fst nc))
                 \<or> io_fails e (RenameTmp (fst nc))")
    case True
    with Cons.prems have "\<forall>p. p \<noteq> ?tmp \<longrightarrow> files' p = files p"
      by (auto simp: Let_def split: if_splits)
    then have "nc # st = [] @ (nc # st) \<and> commit_loop e [] files = (None, files) \<and>
      (\<forall>p. p \<notin> set (map (\<lambda>nc. fst nc @ ''.tmp'') (take 1 (nc # st))) \<longrightarrow> files' p = files p)"
      by simp
    then show ?thesis by blast
  next
    case False
    with Cons.prems have "commit_loop e st ?next = (Some err, files')"
      by (simp add: Let_def)
    from Cons.IH [OF this] obtain wr rest fd where
      d: "st = wr @ rest" "commit_loop e wr ?next = (None, fd)"
         "\<forall>p. p \<notin> set (map (\<lambda>nc. fst nc @ ''.tmp'') (take 1 rest)) \<longrightarrow> files' p = fd p"
      by blast
    from False d(2) have "commit_loop e (nc # wr) files = (None, fd)"
      by (simp add: Let_def)
    with d(1,3) have "nc # st = (nc # wr) @ rest \<and> commit_loop e (nc # wr) files = (None, fd) \<and>
      (\<forall>p. p \<notin> set (map (\<lambda>nc. fst nc @ ''.tmp'') (take 1 rest)) \<longrightarrow> files' p = fd p)"
      by simp
    then show ?thesis by blast
  qed
qed

text \<open>
  Claim C6.  \<open>Commit\<close> of the configuration store and the staging overlay.
  (1) Whenever \<open>Commit\<close> returns an error, the overlay is what it was; the staged
  documents before the failing one have been written, and apart from the temporary
  file of the failing one the active directory is what those writes left.
  (2) When \<open>Commit\<close> returns no error the overlay is empty, \<open>HasChanges\<close> is false, and
  creating, writing and renaming succeeded for every staged document.
  (3) If one of these steps fails for some staged document, \<open>Commit\<close> returns an error.
\<close>

theorem Commit_config_keeps_overlay_on_failure:
  "(\<forall>err w'. Commit_config e w = (Some err, w') \<longrightarrow>
        staged w' = staged w \<and> HasChanges w' = HasChanges w \<and>
        (\<exists>wr rest fd. staged w = wr @ rest \<and> commit_loop e wr (active w) = (None, fd) \<and>
           (\<forall>p. p \<notin> set (map (\<lambda>nc. fst nc @ ''.tmp'') (take 1 rest)) \<longrightarrow> active w' p = fd p)))
   \<and> (\<forall>w'. Commit_config e w = (None, w') \<longrightarrow>
        staged w' = [] \<and> \<not> HasChanges w' \<and>
        (\<forall>n\<in>set (GetChanges w).
           \<not> io_fails e (CreateTmp n) \<and> \<not> io_fails e (WriteTmp n) \<and> \<not> io_fails e (RenameTmp n)))
   \<and> ((\<exists>n\<in>set (GetChanges w).
          io_fails e (CreateTmp n) \<or> io_fails e (WriteTmp n) \<or> io_fails e (RenameTmp n))
        \<longrightarrow> (\<exists>err w'. Commit_config e w = (Some err, w')))"
proof (intro conjI allI impI)
  fix err w' assume a: "Commit_config e w = (Some err, w')"
  show "staged w' = staged w" "HasChanges w' = HasChanges w"
    using a by (auto simp: Commit_config_def HasChanges_def split: if_splits prod.splits option.splits)
  show "\<exists>wr rest fd. staged w = wr @ rest \<and> commit_loop e wr (active w) = (None, fd) \<and>
           (\<forall>p. p \<notin> set (map (\<lambda>nc. fst nc @ ''.tmp'') (take 1 rest)) \<longrightarrow> active w' p = fd p)"
  proof (cases "length (staged w) = 0 \<or> io_fails e MkdirConfigDir")
    case True
    with a have "w' = w" by (auto simp: Commit_config_def split: if_splits)
    then have "staged w = [] @ staged w \<and> commit_loop e [] (active w) = (None, active w) \<and>
           (\<forall>p. p \<notin> set (map (\<lambda>nc. fst nc @ ''.tmp'') (take 1 (staged w))) \<longrightarrow> active w' p = active w p)"
      by simp
    then show ?thesis by blast
  next
    case False
    with a have "commit_loop e (staged w) (active w) = (Some err, active w')"
      by (auto simp: Commit_config_def split: if_splits prod.splits option.splits)
    from commit_loop_failure_keeps_written [OF this] show ?thesis .
  qed
next
  fix w' assume a: "Commit_config e w = (None, w')"
  then show "staged w' = []" "\<not> HasChanges w'"
    by (auto simp: Commit_config_def HasChanges_def split: if_splits prod.splits option.splits)
  from a have "fst (commit_loop e (staged w) (active w)) = None"
    by (auto simp: Commit_config_def split: if_splits prod.splits option.splits)
  then show "\<forall>n\<in>set (GetChanges w).
           \<not> io_fails e (CreateTmp n) \<and> \<not> io_fails e (WriteTmp n) \<and> \<not> io_fails e (RenameTmp n)"
    by (simp only: commit_loop_ok_iff GetChanges_def)
next
  assume "\<exists>n\<in>set (GetChanges w).
          io_fails e (CreateTmp n) \<or> io_fails e (WriteTmp n) \<or> io_fails e (RenameTmp n)"
  then have "fst (commit_loop e (staged w) (active w)) \<noteq> None"
    unfolding commit_loop_ok_iff GetChanges_def by blast
  then show "\<exists>err w'. Commit_config e w = (Some err, w')"
    by (auto simp: Commit_config_def split: prod.splits option.splits)
qed

theorem Commit_config_keeps_overlay_on_failure_witness:
  "fst (Commit_config firewall_write_fails two_staged_world) = Some (WriteConfigFailed ''firewall'')
   \<and> staged (snd (Commit_config firewall_write_fails two_staged_world)) = staged two_staged_world
   \<and> active (snd (Commit_config firewall_write_fails two_staged_world)) ''network''
        = Some (Write (wan_doc ''192.168.1.100''))
   \<and> fst (Commit_config quiet_env two_staged_world) = None
   \<and> staged (snd (Commit_config quiet_env two_staged_world)) = []"
proof -
  obtain w' where f: "Commit_config firewall_write_fails two_staged_world = (Some (WriteConfigFailed ''firewall''), w')"
    and n: "active w' ''network'' = Some (Write (wan_doc ''192.168.1.100''))"
    by (simp add: Commit_config_def firewall_write_fails_def two_staged_world_def seed_world_def
        quiet_env_def Let_def)
  obtain w'' where q: "Commit_config quiet_env two_staged_world = (None, w'')"
    by (simp add: Commit_config_def two_staged_world_def seed_world_def quiet_env_def Let_def)
  from Commit_config_keeps_overlay_on_failure [of firewall_write_fails two_staged_world] f
  have "staged w' = staged two_staged_world" by blast
  moreover from Commit_config_keeps_overlay_on_failure [of quiet_env two_staged_world] q
  have "staged w'' = []" by blast
  ultimately show ?thesis using f n q by simp
qed

subsection \<open>The transaction engine: Commit while busy\<close>

text \<open>
  Claim C2.  When the state of the engine is not idle, \<open>Commit\<close>, whatever its arguments,
  returns the error "transaction already in progress" with that state, and the world
  it returns is the world it was given: no snapshot, no file, no call on an applier, no
  event, the same overlay and the same engine state.
\<close>

theorem Commit_busy_no_effect:
  "state w \<noteq> StateIdle \<Longrightarrow>
   Commit e w message confirmTimeout overallTimeout = (Some (TransactionInProgress (state w)), w)"
  by (simp add: Commit_def)

theorem Commit_busy_no_effect_witness:
  "Commit quiet_env (staged_world\<lparr>state := StatePending\<rparr>) ''again'' 0 0
     = (Some (TransactionInProgress StatePending), staged_world\<lparr>state := StatePending\<rparr>)"
  using Commit_busy_no_effect [of "staged_world\<lparr>state := StatePending\<rparr>" quiet_env "''again''" 0 0]
  by simp

subsection \<open>The snapshot store: Restore\<close>

lemma verify_checksum_mismatch:
  "map_of cks n = Some x \<Longrightarrow> sha256hex e data \<noteq> x \<Longrightarrow>
   \<exists>verr. verify_checksum e sid cks n data = Some verr \<and>
      ((\<forall>op. \<not> io_fails e op) \<longrightarrow> is_corrupt verr)"
  by (cases cks) (auto simp: verify_checksum_def)

lemma verify_checksum_error:
  "verify_checksum e sid cks n data = Some verr \<Longrightarrow> (\<forall>op. \<not> io_fails e op) \<Longrightarrow> is_corrupt verr"
  by (auto simp: verify_checksum_def split: if_splits option.splits)

lemma validate_loop_corrupt:
  "\<exists>n\<in>set names. corrupt_file e files cks n \<Longrightarrow>
   \<exists>verr. validate_loop e sid files cks names = Some verr \<and>
      ((\<forall>op. \<not> io_fails e op) \<longrightarrow> is_corrupt verr)"
proof (induction names)
  case Nil
  then show ?case by simp
next
  case (Cons n names)
  show ?case
  proof (cases "files n")
    case None
    then show ?thesis by simp
  next
    case (Some data)
    show ?thesis
    proof (cases "verify_checksum e sid cks n data")
      case (Some verr)
      with \<open>files n = Some data\<close> verify_checksum_error [OF Some] show ?thesis
        by auto
    next
      case None
      note vc = this
      show ?thesis
      proof (cases "Parse data")
        case (Inl pe)
        with vc \<open>files n = Some data\<close> show ?thesis by auto
      next
        case (Inr c)
        have "\<not> corrupt_file e files cks n"
        proof
          assume "corrupt_file e files cks n"
          with \<open>files n = Some data\<close> Inr obtain x where
            "map_of cks n = Some x" "sha256hex e data \<noteq> x"
            by (auto simp: corrupt_file_def split: option.splits)
          from verify_checksum_mismatch [OF this, where sid = sid] vc show False by auto
        qed
        with Cons.prems have "\<exists>n\<in>set names. corrupt_file e files cks n" by auto
        from Cons.IH [OF this] obtain verr where
          "validate_loop e sid files cks names = Some verr"
          "(\<forall>op. \<not> io_fails e op) \<longrightarrow> is_corrupt verr" by blast
        with vc Inr \<open>files n = Some data\<close> show ?thesis by auto
      qed
    qed
  qed
qed

lemma Load_snapshot_ID: "Load_snapshot w sid = Inr snapshot \<Longrightarrow> ID snapshot = sid"
  by (auto simp: Load_snapshot_def split: option.splits snap_entry.splits meta_file.splits)

text \<open>
  Claim C5.  Let \<open>Load\<close> find the snapshot \<open>sid\<close>, and let its metadata list a config file
  that is missing from the snapshot, or whose digest differs from the checksum stored
  for it, or that does not parse.  Then \<open>Restore\<close> returns the error "snapshot validation
  failed" and the world it was given: no file of the active directory is written.  When
  no file-system operation fails, the cause it reports is one of the three that mark a
  corrupted snapshot (missing file, checksum mismatch, invalid UCI).
\<close>

theorem Restore_rejects_corrupt_snapshot:
  assumes "Load_snapshot w sid = Inr snapshot"
    and "\<exists>n\<in>set (Configs (Meta snapshot)).
           corrupt_file e (snapshot_files w sid) (Checksums (Meta snapshot)) n"
  shows "\<exists>verr. Restore e w sid = (Some (SnapshotValidationFailed verr), w) \<and>
           ((\<forall>op. \<not> io_fails e op) \<longrightarrow> is_corrupt verr)"
proof -
  from assms(1) have sid: "ID snapshot = sid" by (rule Load_snapshot_ID)
  from validate_loop_corrupt [OF assms(2), of sid] obtain verr where
    v: "ValidateSnapshot e w snapshot = Some verr"
    and c: "(\<forall>op. \<not> io_fails e op) \<longrightarrow> is_corrupt verr"
    unfolding ValidateSnapshot_def sid by blast
  from assms(1) v have "Restore e w sid = (Some (SnapshotValidationFailed verr), w)"
    by (simp add: Restore_def)
  with c show ?thesis by blast
qed

theorem Restore_rejects_corrupt_snapshot_witness:
  "Restore quiet_env truncated_world ''20240101-120000-000-ab12''
     = (Some (SnapshotValidationFailed
               (ChecksumMismatch ''network'' ''sha256:config interface'' ''sha256:config'')),
        truncated_world)"
proof -
  let ?sid = "''20240101-120000-000-ab12''"
  let ?md = "\<lparr>Timestamp = 1000, Message = ''m'', Configs = [''network''],
                           MetaID = ?sid, Version = ''1.0.0'',
                           Checksums = [(''network'', ''sha256:config interface'')]\<rparr>"
  have l: "Load_snapshot truncated_world ?sid = Inr \<lparr>ID = ?sid, Meta = ?md\<rparr>"
    by (simp add: Load_snapshot_def truncated_world_def seed_world_def)
  have b: "\<exists>n\<in>set (Configs (Meta \<lparr>ID = ?sid, Meta = ?md\<rparr>)).
           corrupt_file quiet_env (snapshot_files truncated_world ?sid)
             (Checksums (Meta \<lparr>ID = ?sid, Meta = ?md\<rparr>)) n"
    by (simp add: corrupt_file_def snapshot_files_def truncated_world_def seed_world_def quiet_env_def)
  from Restore_rejects_corrupt_snapshot [OF l b] obtain verr where
    r: "Restore quiet_env truncated_world ?sid = (Some (SnapshotValidationFailed verr), truncated_world)"
    by blast
  have "fst (Restore quiet_env truncated_world ?sid)
      = Some (SnapshotValidationFailed
               (ChecksumMismatch ''network'' ''sha256:config interface'' ''sha256:config''))"
    by (simp add: Restore_def Load_snapshot_def ValidateSnapshot_def snapshot_files_def verify_checksum_def
        truncated_world_def seed_world_def quiet_env_def)
  with r show ?thesis by simp
qed

subsection \<open>The snapshot store: Prune\<close>


lemma prune_loop_no_faults:
  "\<forall>sid. \<not> io_fails e (RemoveAll sid) \<Longrightarrow>
   prune_loop e ss deleted w =
     ((deleted @ map ID ss, None),
      w\<lparr>snapshots := filter (\<lambda>p. fst p \<notin> set (map ID ss)) (snapshots w)\<rparr>)"
proof (induction ss arbitrary: deleted w)
  case Nil
  then show ?case by simp
next
  case (Cons s ss)
  have "filter (\<lambda>p. fst p \<notin> set (map ID ss)) (filter (\<lambda>p. fst p \<noteq> ID s) (snapshots w))
      = filter (\<lambda>p. fst p \<notin> set (map ID (s # ss))) (snapshots w)"
    by (induction "snapshots w") auto
  with Cons show ?case by (simp add: Delete_def)
qed

lemma map_of_filter_fst:
  "map_of (filter (\<lambda>p. fst p \<notin> D) xs) k = (if k \<in> D then None else map_of xs k)"
  by (induction xs) auto

lemma Load_snapshot_after_delete:
  "sid \<notin> D \<Longrightarrow>
   Load_snapshot (w\<lparr>snapshots := filter (\<lambda>p. fst p \<notin> D) (snapshots w)\<rparr>) sid = Load_snapshot w sid"
  by (simp add: Load_snapshot_def map_of_filter_fst)

lemma list_loop_after_delete:
  "list_loop (w\<lparr>snapshots := filter (\<lambda>p. fst p \<notin> D) (snapshots w)\<rparr>) (filter (\<lambda>p. fst p \<notin> D) xs)
     = filter (\<lambda>s. ID s \<notin> D) (list_loop w xs)"
proof (induction xs)
  case Nil
  then show ?case by simp
next
  case (Cons x xs)
  show ?case
  proof (cases "fst x \<in> D")
    case True
    then show ?thesis using Cons
      by (auto split: snap_entry.splits sum.splits dest: Load_snapshot_ID)
  next
    case False
    then show ?thesis using Cons
      by (auto simp: Load_snapshot_after_delete split: snap_entry.splits sum.splits
          dest: Load_snapshot_ID)
  qed
qed

lemma list_loop_IDs: "set (map ID (list_loop w xs)) \<subseteq> set (map fst xs)"
  by (induction xs) (auto split: snap_entry.splits sum.splits dest: Load_snapshot_ID)

lemma list_loop_distinct:
  "distinct (map fst xs) \<Longrightarrow> distinct (map ID (list_loop w xs))"
proof (induction xs)
  case Nil
  then show ?case by simp
next
  case (Cons x xs)
  then have "fst x \<notin> set (map ID (list_loop w xs))"
    using list_loop_IDs [of w xs] by auto
  with Cons show ?case
    by (auto split: snap_entry.splits sum.splits dest: Load_snapshot_ID)
qed

lemma count_list_insert_sorted:
  "count_list (insert_sorted lt x xs) y = count_list (x # xs) y"
  by (induction xs) auto

lemma count_list_insertion_sort:
  "count_list (insertion_sort lt xs) y = count_list xs y"
  by (induction xs) (auto simp: count_list_insert_sorted)

lemma set_insert_sorted: "set (insert_sorted lt x xs) = insert x (set xs)"
  by (induction xs) auto

lemma sorted_insert_sorted:
  "sorted_wrt (\<lambda>a b. \<not> newer b a) xs \<Longrightarrow> sorted_wrt (\<lambda>a b. \<not> newer b a) (insert_sorted newer x xs)"
  by (induction xs) (auto simp: set_insert_sorted newer_def)

lemma insertion_sort_newest_first: "sorts_newest_first insertion_sort"
  unfolding sorts_newest_first_def
proof (intro allI conjI)
  fix xs :: "Snapshot list" and x
  show "count_list (insertion_sort newer xs) x = count_list xs x"
    by (rule count_list_insertion_sort)
next
  fix xs :: "Snapshot list"
  show "sorted_wrt (\<lambda>a b. \<not> newer b a) (insertion_sort newer xs)"
    by (induction xs) (auto intro: sorted_insert_sorted)
qed

lemma sorted_slice_set:
  assumes "sorts_newest_first srt"
  shows "set (srt newer xs) = set xs"
proof -
  from assms have "\<forall>x. count_list (srt newer xs) x = count_list xs x"
    by (simp add: sorts_newest_first_def)
  then have "\<forall>x. (count_list (srt newer xs) x = 0) = (count_list xs x = 0)" by simp
  then show ?thesis by (auto simp: count_list_0_iff)
qed

lemma sorted_slice_length:
  assumes "sorts_newest_first srt"
  shows "length (srt newer xs) = length xs"
proof -
  from assms have c: "\<And>x. count_list (srt newer xs) x = count_list xs x"
    by (simp add: sorts_newest_first_def)
  have "length (srt newer xs) = sum (count_list (srt newer xs)) (set (srt newer xs))"
    by (simp add: sum_count_set)
  also have "\<dots> = sum (count_list xs) (set xs)"
    by (simp add: c sorted_slice_set [OF assms])
  also have "\<dots> = length xs" by (simp add: sum_count_set)
  finally show ?thesis .
qed

lemma distinct_map_rearranged:
  assumes "distinct (map f xs)" "set ys = set xs" "length ys = length xs"
  shows "distinct (map f ys)"
proof -
  have "card (set (map f ys)) = card (set (map f xs))" using assms(2) by simp
  also have "\<dots> = length (map f xs)" using assms(1) by (rule distinct_card)
  also have "\<dots> = length (map f ys)" using assms(3) by simp
  finally show ?thesis by (rule card_distinct)
qed

lemma sorted_slice_split:
  assumes "sorts_newest_first srt"
  shows "\<forall>d\<in>set (drop k (srt newer xs)). \<forall>x\<in>set (take k (srt newer xs)).
      Timestamp (Meta d) \<le> Timestamp (Meta x)"
proof -
  let ?ys = "srt newer xs"
  from assms have "sorted_wrt (\<lambda>a b. \<not> newer b a) ?ys" by (simp add: sorts_newest_first_def)
  then have "sorted_wrt (\<lambda>a b. \<not> newer b a) (take k ?ys @ drop k ?ys)" by simp
  then have "\<forall>a\<in>set (take k ?ys). \<forall>b\<in>set (drop k ?ys). \<not> newer b a"
    unfolding sorted_wrt_append by blast
  then show ?thesis unfolding newer_def not_less by blast
qed

lemma filter_drop_IDs:
  assumes "distinct (map ID xs)"
  shows "filter (\<lambda>s. ID s \<notin> set (map ID (drop k xs))) xs = take k xs"
proof -
  from assms have "distinct (map ID (take k xs @ drop k xs))" by simp
  then have disj: "set (map ID (take k xs)) \<inter> set (map ID (drop k xs)) = {}"
    unfolding map_append distinct_append by blast
  have a: "filter (\<lambda>s. ID s \<notin> set (map ID (drop k xs))) (take k xs) = take k xs"
    using disj by (intro filter_True) auto
  have b: "filter (\<lambda>s. ID s \<notin> set (map ID (drop k xs))) (drop k xs) = []"
    by (intro filter_False) auto
  have "filter (\<lambda>s. ID s \<notin> set (map ID (drop k xs))) (take k xs @ drop k xs) = take k xs"
    unfolding filter_append a b by simp
  then show ?thesis by simp
qed


text \<open>
  Claim C7.  Let no operation on the snapshot directory fail, let the entries of the
  directory have distinct names, let \<open>keep\<close> not be negative, and let \<open>sort.Slice\<close> do what
  it promises, whatever order it gives to snapshots of one time stamp.  \<open>List\<close> returns the
  valid snapshots, newest first; call them \<open>snaps\<close> and their number \<open>n\<close>.  If \<open>n \<le> keep\<close>,
  \<open>Prune\<close> returns the empty list and changes nothing.  If \<open>n > keep\<close>, \<open>Prune\<close> returns the
  identifiers of the \<open>n - keep\<close> snapshots after the first \<open>keep\<close> of \<open>snaps\<close>, which are
  distinct, and removes exactly their directories; \<open>List\<close> then returns \<open>keep\<close> snapshots,
  the first \<open>keep\<close> of \<open>snaps\<close> in some order, and no deleted snapshot has a later time
  stamp than a kept one.
\<close>

theorem Prune_deletes_oldest_beyond_keep:
  assumes io: "\<not> io_fails e MkdirSnapshotDir" "\<not> io_fails e ReadSnapshotDir"
      "\<forall>sid. \<not> io_fails e (RemoveAll sid)"
    and names: "distinct (map fst (snapshots w))"
    and keep: "0 \<le> keep"
    and srt: "sorts_newest_first (sort_slice e)"
  shows "\<exists>snaps. List_snapshots e w = Inr snaps \<and>
     (int (length snaps) \<le> keep \<longrightarrow> Prune e w keep = (([], None), w)) \<and>
     (keep < int (length snaps) \<longrightarrow>
        (\<exists>w' kept. Prune e w keep = ((map ID (drop (nat keep) snaps), None), w')
           \<and> length (drop (nat keep) snaps) = length snaps - nat keep
           \<and> distinct (map ID (drop (nat keep) snaps))
           \<and> List_snapshots e w' = Inr kept
           \<and> set kept = set (take (nat keep) snaps)
           \<and> length kept = nat keep
           \<and> (\<forall>d\<in>set (drop (nat keep) snaps). \<forall>x\<in>set kept.
                 Timestamp (Meta d) \<le> Timestamp (Meta x))
           \<and> snapshots w' = filter (\<lambda>p. fst p \<notin> set (map ID (drop (nat keep) snaps))) (snapshots w)
           \<and> active w' = active w))"
proof -
  define unsorted where "unsorted = list_loop w (snapshots w)"
  define snaps where "snaps = sort_slice e newer unsorted"
  define D where "D = set (map ID (drop (nat keep) snaps))"
  define w' where "w' = w\<lparr>snapshots := filter (\<lambda>p. fst p \<notin> D) (snapshots w)\<rparr>"
  define rest where "rest = filter (\<lambda>s. ID s \<notin> D) unsorted"
  define kept where "kept = sort_slice e newer rest"
  have L: "List_snapshots e w = Inr snaps"
    using io by (simp add: List_snapshots_def snaps_def unsorted_def)
  have small: "int (length snaps) \<le> keep \<longrightarrow> Prune e w keep = (([], None), w)"
    by (simp add: Prune_def L)
  have set_snaps: "set snaps = set unsorted"
    unfolding snaps_def by (rule sorted_slice_set [OF srt])
  have len_snaps: "length snaps = length unsorted"
    unfolding snaps_def by (rule sorted_slice_length [OF srt])
  have dist_unsorted: "distinct (map ID unsorted)"
    unfolding unsorted_def by (rule list_loop_distinct [OF names])
  have dist: "distinct (map ID snaps)"
    using dist_unsorted set_snaps len_snaps by (rule distinct_map_rearranged)
  have dist_drop: "distinct (map ID (drop (nat keep) snaps))"
    using dist by (simp add: drop_map [symmetric] distinct_drop)
  have big: "Prune e w keep = ((map ID (drop (nat keep) snaps), None), w')"
    if "keep < int (length snaps)"
    using that keep io(3) by (simp add: Prune_def L prune_loop_no_faults w'_def D_def)
  have "list_loop w' (snapshots w') = rest"
    unfolding w'_def rest_def unsorted_def
    using list_loop_after_delete [where w = w and D = D and xs = "snapshots w"] by simp
  then have L': "List_snapshots e w' = Inr kept"
    using io by (simp add: List_snapshots_def kept_def)
  have "set kept = set rest"
    unfolding kept_def by (rule sorted_slice_set [OF srt])
  also have "\<dots> = set (filter (\<lambda>s. ID s \<notin> D) snaps)"
    by (simp add: rest_def set_snaps)
  also have "filter (\<lambda>s. ID s \<notin> D) snaps = take (nat keep) snaps"
    unfolding D_def using dist by (rule filter_drop_IDs)
  finally have set_kept: "set kept = set (take (nat keep) snaps)" .
  have set_rest: "set rest = set (take (nat keep) snaps)"
    using set_kept sorted_slice_set [OF srt, of rest] by (simp add: kept_def)
  have "distinct rest"
    unfolding rest_def using dist_unsorted by (simp add: distinct_map)
  then have "length rest = card (set rest)" by (simp add: distinct_card)
  also have "\<dots> = card (set (take (nat keep) snaps))" by (simp only: set_rest)
  also have "\<dots> = length (take (nat keep) snaps)"
    using dist by (intro distinct_card distinct_take) (simp add: distinct_map)
  finally have len_rest: "length rest = length (take (nat keep) snaps)" .
  have len: "length kept = nat keep" if "keep < int (length snaps)"
  proof -
    have "length kept = length rest"
      unfolding kept_def by (rule sorted_slice_length [OF srt])
    with len_rest that keep show ?thesis by simp
  qed
  have "\<forall>d\<in>set (drop (nat keep) snaps). \<forall>x\<in>set (take (nat keep) snaps).
                 Timestamp (Meta d) \<le> Timestamp (Meta x)"
    unfolding snaps_def by (rule sorted_slice_split [OF srt])
  then have ts: "\<forall>d\<in>set (drop (nat keep) snaps). \<forall>x\<in>set kept.
                 Timestamp (Meta d) \<le> Timestamp (Meta x)"
    by (simp only: set_kept)
  have frame: "snapshots w' = filter (\<lambda>p. fst p \<notin> set (map ID (drop (nat keep) snaps))) (snapshots w)"
      "active w' = active w"
    by (simp_all add: w'_def D_def)
  have "\<exists>w' kept. Prune e w keep = ((map ID (drop (nat keep) snaps), None), w')
           \<and> length (drop (nat keep) snaps) = length snaps - nat keep
           \<and> distinct (map ID (drop (nat keep) snaps))
           \<and> List_snapshots e w' = Inr kept
           \<and> set kept = set (take (nat keep) snaps)
           \<and> length kept = nat keep
           \<and> (\<forall>d\<in>set (drop (nat keep) snaps). \<forall>x\<in>set kept.
                 Timestamp (Meta d) \<le> Timestamp (Meta x))
           \<and> snapshots w' = filter (\<lambda>p. fst p \<notin> set (map ID (drop (nat keep) snaps))) (snapshots w)
           \<and> active w' = active w"
    if k: "keep < int (length snaps)"
    by (intro exI [of _ w'] exI [of _ kept] conjI big [OF k] dist_drop L' set_kept len [OF k] ts frame)
      simp
  with L small show ?thesis by (intro exI [of _ snaps]) simp
qed

text \<open>
  Four snapshots, two of them of one time stamp, which the sample sort lists against
  the order of the directory: keeping two deletes both of the oldest, keeping four
  deletes nothing.
\<close>

theorem Prune_deletes_oldest_beyond_keep_witness:
  "fst (Prune quiet_env four_snapshots_world 2) = ([''s-d'', ''s-b''], None)
   \<and> (\<exists>kept. List_snapshots quiet_env (snd (Prune quiet_env four_snapshots_world 2)) = Inr kept
         \<and> set kept = {\<lparr>ID = ''s-a'', Meta = sample_meta ''s-a'' 30\<rparr>,
                        \<lparr>ID = ''s-c'', Meta = sample_meta ''s-c'' 20\<rparr>}
         \<and> length kept = 2)
   \<and> map fst (snapshots (snd (Prune quiet_env four_snapshots_world 2)))
        = [''s-a'', ''notes.txt'', ''tmp'', ''s-c'']
   \<and> Prune quiet_env four_snapshots_world 4 = (([], None), four_snapshots_world)"
proof -
  let ?a = "\<lparr>ID = ''s-a'', Meta = sample_meta ''s-a'' 30\<rparr>"
  let ?b = "\<lparr>ID = ''s-b'', Meta = sample_meta ''s-b'' 10\<rparr>"
  let ?c = "\<lparr>ID = ''s-c'', Meta = sample_meta ''s-c'' 20\<rparr>"
  let ?d = "\<lparr>ID = ''s-d'', Meta = sample_meta ''s-d'' 10\<rparr>"
  have io: "\<not> io_fails quiet_env MkdirSnapshotDir" "\<not> io_fails quiet_env ReadSnapshotDir"
      "\<forall>sid. \<not> io_fails quiet_env (RemoveAll sid)"
    by (simp_all add: quiet_env_def)
  have names: "distinct (map fst (snapshots four_snapshots_world))"
    by (simp add: four_snapshots_world_def seed_world_def)
  have srt: "sorts_newest_first (sort_slice quiet_env)"
    by (simp add: quiet_env_def insertion_sort_newest_first)
  have L: "List_snapshots quiet_env four_snapshots_world = Inr [?a, ?c, ?d, ?b]"
    by (simp add: List_snapshots_def quiet_env_def four_snapshots_world_def seed_world_def
        Load_snapshot_def newer_def sample_meta_def)
  from Prune_deletes_oldest_beyond_keep [OF io names _ srt, of 2] L
  obtain w' kept where
    "Prune quiet_env four_snapshots_world 2 = ((map ID (drop (nat 2) [?a, ?c, ?d, ?b]), None), w')"
    "List_snapshots quiet_env w' = Inr kept"
    "set kept = set (take (nat 2) [?a, ?c, ?d, ?b])"
    "length kept = nat 2"
    "snapshots w' = filter (\<lambda>p. fst p \<notin> set (map ID (drop (nat 2) [?a, ?c, ?d, ?b])))
                      (snapshots four_snapshots_world)"
    by auto
  moreover from Prune_deletes_oldest_beyond_keep [OF io names _ srt, of 4] L
  have "Prune quiet_env four_snapshots_world 4 = (([], None), four_snapshots_world)"
    by auto
  ultimately show ?thesis
    by (simp add: four_snapshots_world_def seed_world_def)
qed

text \<open>
  The claim as it stands fails for a negative \<open>keep\<close> and when a directory cannot be
  removed.  \<open>List\<close> gives the four snapshots of the sample.  With \<open>keep = -1\<close> there are
  more snapshots than \<open>keep\<close>, and \<open>Prune\<close> deletes nothing: the first index of its loop
  is out of range.  With \<open>keep = 1\<close> and the directory of \<open>s-b\<close> not removable, \<open>Prune\<close>
  deletes two snapshots and not three, and returns an error with their identifiers.
\<close>

theorem Prune_negative_keep_or_failed_delete:
  "List_snapshots quiet_env four_snapshots_world
     = Inr [\<lparr>ID = ''s-a'', Meta = sample_meta ''s-a'' 30\<rparr>,
            \<lparr>ID = ''s-c'', Meta = sample_meta ''s-c'' 20\<rparr>,
            \<lparr>ID = ''s-d'', Meta = sample_meta ''s-d'' 10\<rparr>,
            \<lparr>ID = ''s-b'', Meta = sample_meta ''s-b'' 10\<rparr>]
   \<and> Prune quiet_env four_snapshots_world (- 1)
       = (([], Some IndexOutOfRange), four_snapshots_world)
   \<and> fst (Prune remove_fails_env four_snapshots_world 1)
       = ([''s-c'', ''s-d''], Some (DeleteSnapshotFailed ''s-b''))
   \<and> map fst (snapshots (snd (Prune remove_fails_env four_snapshots_world 1)))
       = [''s-a'', ''notes.txt'', ''s-b'', ''tmp'']"
  by (simp add: Prune_def prune_loop.simps Delete_def List_snapshots_def quiet_env_def
      remove_fails_env_def four_snapshots_world_def seed_world_def Load_snapshot_def newer_def
      sample_meta_def)
subsection \<open>The transaction engine: what a commit changes\<close>

lemma prune_loop_frame:
  "prune_loop e ss deleted w = (r, w') \<Longrightarrow> w' = w\<lparr>snapshots := snapshots w'\<rparr>"
proof (induction ss arbitrary: deleted w)
  case Nil
  then show ?case by auto
next
  case (Cons s ss)
  show ?case
  proof (cases "io_fails e (RemoveAll (ID s))")
    case True
    with Cons.prems show ?thesis by (auto simp: Delete_def)
  next
    case False
    let ?w1 = "w\<lparr>snapshots := filter (\<lambda>p. fst p \<noteq> ID s) (snapshots w)\<rparr>"
    from False Cons.prems have "prune_loop e ss (deleted @ [ID s]) ?w1 = (r, w')"
      by (simp add: Delete_def)
    from Cons.IH [OF this] have "w' = ?w1\<lparr>snapshots := snapshots w'\<rparr>" .
    then show ?thesis by simp
  qed
qed

lemma Prune_frame: "Prune e w keep = (r, w') \<Longrightarrow> w' = w\<lparr>snapshots := snapshots w'\<rparr>"
  by (auto simp: Prune_def split: sum.splits if_splits dest: prune_loop_frame)

lemma auto_prune_frame: "auto_prune e w = w\<lparr>snapshots := snapshots (auto_prune e w)\<rparr>"
proof (cases "List_snapshots e w")
  case (Inl a)
  then show ?thesis by (simp add: auto_prune_def)
next
  case (Inr snaps)
  show ?thesis
  proof (cases "length snaps > 100")
    case True
    obtain r w' where p: "Prune e w 100 = (r, w')" by (cases "Prune e w 100")
    from Prune_frame [OF p] Inr True p show ?thesis by (simp add: auto_prune_def)
  next
    case False
    with Inr show ?thesis by (simp add: auto_prune_def)
  qed
qed

lemma Create_frame: "Create e w message configs = (r, w') \<Longrightarrow> w' = w\<lparr>snapshots := snapshots w'\<rparr>"
proof -
  assume a: "Create e w message configs = (r, w')"
  have ap: "\<And>v. auto_prune e (w\<lparr>snapshots := v\<rparr>) = w\<lparr>snapshots := snapshots (auto_prune e (w\<lparr>snapshots := v\<rparr>))\<rparr>"
  proof -
    fix v
    from auto_prune_frame [of e "w\<lparr>snapshots := v\<rparr>"]
    show "auto_prune e (w\<lparr>snapshots := v\<rparr>) = w\<lparr>snapshots := snapshots (auto_prune e (w\<lparr>snapshots := v\<rparr>))\<rparr>"
      by simp
  qed
  from a show ?thesis
    by (auto simp: Create_def Let_def remove_snapshot_dir_def
        split: if_splits sum.splits prod.splits option.splits intro: ap)
qed

lemma apply_loop_success_frame:
  "apply_loop e deadline i changed names w = (None, w') \<Longrightarrow> w' = w\<lparr>syscalls := syscalls w'\<rparr>"
proof (induction names arbitrary: i w)
  case Nil
  then show ?case by auto
next
  case (Cons n names)
  from Cons.prems show ?case
    by (auto simp: abort_commit_def Let_def split: if_splits sum.splits dest!: Cons.IH)
qed

lemma Commit_config_success:
  "Commit_config e w = (None, w') \<Longrightarrow> w' = w\<lparr>active := active w', staged := []\<rparr>"
  by (auto simp: Commit_config_def split: if_splits prod.splits option.splits)

lemma Commit_success:
  assumes "Commit e w message confirmTimeout overallTimeout = (None, w')"
  shows "state w = StateIdle \<and>
    (\<exists>snapshot w5. w' = finish_commit e snapshot confirmTimeout w5 \<and>
       state w5 = StateInProgress \<and> currentSnapshot w5 = Some snapshot \<and> staged w5 = [] \<and>
       pendingConfirm w5 = pendingConfirm w \<and> confirmCancelCh w5 = confirmCancelCh w \<and>
       nextChan w5 = nextChan w \<and> timers w5 = timers w \<and> closedChans w5 = closedChans w \<and>
       applyOrder w5 = applyOrder w \<and> clock w5 = clock w)"
proof -
  from assms have idle: "state w = StateIdle" and ch: "HasChanges w"
    by (auto simp: Commit_def split: if_splits)
  let ?w1 = "publish (EventTransactionStarted message) (w\<lparr>state := StateInProgress\<rparr>)"
  from assms idle ch obtain snapshot w2 where
    c: "Create e ?w1 message (GetChanges ?w1) = (Inr snapshot, w2)"
    by (auto simp: Commit_def Let_def split: prod.splits sum.splits option.splits)
  let ?w3 = "publish (EventSnapshotCreated (ID snapshot)) (w2\<lparr>currentSnapshot := Some snapshot\<rparr>)"
  from assms idle ch c obtain w4 where
    cc: "Commit_config e ?w3 = (None, w4)"
    by (auto simp: Commit_def Let_def split: prod.splits sum.splits option.splits)
  from assms idle ch c cc obtain w5 where
    al: "apply_loop e (overallTimeout > 0) 0 (GetChanges ?w1) (applyOrder w4) w4 = (None, w5)"
    and fin: "w' = finish_commit e snapshot confirmTimeout w5"
    by (auto simp: Commit_def Let_def split: prod.splits sum.splits option.splits)
  from Create_frame [OF c] have w2: "w2 = ?w1\<lparr>snapshots := snapshots w2\<rparr>" .
  from Commit_config_success [OF cc] have w4: "w4 = ?w3\<lparr>active := active w4, staged := []\<rparr>" .
  from apply_loop_success_frame [OF al] have w5: "w5 = w4\<lparr>syscalls := syscalls w5\<rparr>" .
  have f5: "state w5 = state w4" "currentSnapshot w5 = currentSnapshot w4" "staged w5 = staged w4"
      "pendingConfirm w5 = pendingConfirm w4" "confirmCancelCh w5 = confirmCancelCh w4"
      "nextChan w5 = nextChan w4" "timers w5 = timers w4" "closedChans w5 = closedChans w4"
      "applyOrder w5 = applyOrder w4" "clock w5 = clock w4"
    by (subst w5, simp)+
  have f4: "state w4 = state w2" "currentSnapshot w4 = Some snapshot" "staged w4 = []"
      "pendingConfirm w4 = pendingConfirm w2" "confirmCancelCh w4 = confirmCancelCh w2"
      "nextChan w4 = nextChan w2" "timers w4 = timers w2" "closedChans w4 = closedChans w2"
      "applyOrder w4 = applyOrder w2" "clock w4 = clock w2"
    by (subst w4, simp add: publish_def)+
  have f2: "state w2 = StateInProgress"
      "pendingConfirm w2 = pendingConfirm w" "confirmCancelCh w2 = confirmCancelCh w"
      "nextChan w2 = nextChan w" "timers w2 = timers w" "closedChans w2 = closedChans w"
      "applyOrder w2 = applyOrder w" "clock w2 = clock w"
    by (subst w2, simp add: publish_def)+
  have "state w5 = StateInProgress \<and> currentSnapshot w5 = Some snapshot \<and> staged w5 = [] \<and>
       pendingConfirm w5 = pendingConfirm w \<and> confirmCancelCh w5 = confirmCancelCh w \<and>
       nextChan w5 = nextChan w \<and> timers w5 = timers w \<and> closedChans w5 = closedChans w \<and>
       applyOrder w5 = applyOrder w \<and> clock w5 = clock w"
    by (simp only: f5 f4 f2)
  with idle fin show ?thesis by blast
qed

lemma Parse_Write_wan_new: "Parse (Write (wan_doc ''192.168.1.100'')) = Inr (wan_doc ''192.168.1.100'')"
  by (simp add: wan_doc_def uci_eval assign.simps)

lemma Parse_Write_wan_old: "Parse (Write (wan_doc ''192.168.1.1'')) = Inr (wan_doc ''192.168.1.1'')"
  by (simp add: wan_doc_def uci_eval)

lemmas tx_eval =
  Commit_def HasChanges_def GetChanges_def publish_def Create_def Let_def
  write_metadata_def auto_prune_def List_snapshots_def Load_snapshot_def newer_def
  snapshot_files_def Commit_config_def Load_def finish_commit_def abort_commit_def
  rollbackInternal_def Restore_def ValidateSnapshot_def verify_checksum_def GetLatest_def
  confirmationTimer_def Confirm_def SafeClose_def background_def GetState_def Prune_def
  timer_step_def select_ready_def elapse_def Rollback_def Stage_def Delete_def


lemma wan_doc_neq [simp]:
  "wan_doc ''192.168.1.100'' \<noteq> wan_doc ''192.168.1.1''"
  "wan_doc ''192.168.1.1'' \<noteq> wan_doc ''192.168.1.100''"
  by (simp_all add: wan_doc_def)

text \<open>
  Claim C4, as the code has it.  When \<open>Commit\<close> with \<open>confirmTimeout = 0\<close> and
  \<open>overallTimeout = 0\<close> returns no error, the state it leaves is \<open>StateCompleted\<close> (the
  code marks the transaction completed; only a successful rollback sets \<open>StateIdle\<close>),
  the staging overlay is empty, the snapshot of the transaction is the current
  snapshot, and no confirmation is pending beyond what was before.
\<close>

theorem Commit_without_confirmation_completes:
  "Commit e w message 0 0 = (None, w') \<Longrightarrow>
   GetState w' = StateCompleted \<and> staged w' = [] \<and> \<not> HasChanges w' \<and>
   (\<exists>snapshot. currentSnapshot w' = Some snapshot) \<and>
   pendingConfirm w' = pendingConfirm w \<and> timers w' = timers w"
proof -
  assume "Commit e w message 0 0 = (None, w')"
  from Commit_success [OF this] obtain snapshot w5 where
    "w' = finish_commit e snapshot 0 w5" "state w5 = StateInProgress"
    "currentSnapshot w5 = Some snapshot" "staged w5 = []"
    "pendingConfirm w5 = pendingConfirm w" "timers w5 = timers w"
    by blast
  then show ?thesis
    by (simp add: finish_commit_def publish_def GetState_def HasChanges_def)
qed

theorem Commit_without_confirmation_completes_witness:
  "Commit quiet_env staged_world ''msg'' 0 0
     = (None, snd (Commit quiet_env staged_world ''msg'' 0 0))
   \<and> GetState (snd (Commit quiet_env staged_world ''msg'' 0 0)) = StateCompleted
   \<and> staged (snd (Commit quiet_env staged_world ''msg'' 0 0)) = []
   \<and> active (snd (Commit quiet_env staged_world ''msg'' 0 0)) ''network''
        = Some (Write (wan_doc ''192.168.1.100''))"
proof -
  have ok: "fst (Commit quiet_env staged_world ''msg'' 0 0) = None"
    and act: "active (snd (Commit quiet_env staged_world ''msg'' 0 0)) ''network''
        = Some (Write (wan_doc ''192.168.1.100''))"
    by (simp_all add: tx_eval quiet_env_def staged_world_def seed_world_def
        Parse_Write_wan_new Parse_Write_wan_old)
  then have c: "Commit quiet_env staged_world ''msg'' 0 0
     = (None, snd (Commit quiet_env staged_world ''msg'' 0 0))"
    by (metis prod.collapse)
  from Commit_without_confirmation_completes [OF c] c act show ?thesis by simp
qed

text \<open>
  Claim C4 as stated fails: in the scenario of the specification (one interface, a
  new address staged, \<open>commit("msg", 0, 0)\<close>, nothing fails) the state after \<open>Commit\<close>
  is \<open>StateCompleted\<close>, not \<open>StateIdle\<close>, and a commit of a further staged change on
  that engine is refused as in progress.
\<close>

theorem Commit_without_confirmation_not_idle:
  "fst (Commit quiet_env staged_world ''msg'' 0 0) = None
   \<and> GetState (snd (Commit quiet_env staged_world ''msg'' 0 0)) \<noteq> StateIdle
   \<and> fst (Commit quiet_env
            (Stage (snd (Commit quiet_env staged_world ''msg'' 0 0)) ''network'' (wan_doc ''10.0.0.1''))
            ''next'' 0 0)
        = Some (TransactionInProgress StateCompleted)"
  by (simp add: tx_eval Stage_def quiet_env_def staged_world_def seed_world_def
      Parse_Write_wan_new Parse_Write_wan_old)

subsection \<open>The transaction engine: confirm or revert\<close>



lemma reapply_loop_frame:
  "reapply_loop e ctx k names errs w = (r, w') \<Longrightarrow> w' = w\<lparr>syscalls := syscalls w'\<rparr>"
proof (induction names arbitrary: k errs w)
  case Nil
  then show ?case by auto
next
  case (Cons n names)
  from Cons.prems show ?case
    by (auto simp: Let_def split: if_splits sum.splits dest!: Cons.IH)
qed














end
